theory Spec2Isabelle
  imports Complex_Main "HOL-Library.Multiset" "HOL-Library.Monad_Syntax" "HOL-Library.Log_Nat"
begin

section \<open>Boids flocking kernels (src/src/kernel.cu)\<close>

text \<open>
  The CUDA kernels of \<^verbatim>\<open>kernel.cu\<close> are embedded as HOL functions.

  \<^item> A \<^verbatim>\<open>float\<close> is the \<^typ>\<open>real\<close> it denotes; there is no infinity and no NaN. The
    rounding of binary32 (\<open>f32\<close> below) is applied where it decides which cells the
    neighbour query visits: in the grid parameters of \<^verbatim>\<open>initSimulation\<close> and in the cell
    and in-cell fraction of the query, each operation rounded on its own (no fused
    multiply-add). In the rule sums, the speed clamp, the integrator
    and the indexer the arithmetic is idealised as exact, and every statement about them
    is a statement about this idealisation.
  \<^item> \<^verbatim>\<open>int\<close> is \<^typ>\<open>int\<close>; where the size of an \<^verbatim>\<open>int\<close> matters the bound is written out.
  \<^item> A device buffer is a list. A read or write outside the buffer is undefined behaviour
    in the source; here it is the value \<open>None\<close>.
  \<^item> A kernel launch runs its thread body once per thread index, in the order of a
    schedule (a list of thread indices); each thread body is atomic.
\<close>

subsection \<open>Configuration\<close>

definition blockSize :: int where "blockSize = 128"

definition rule1Distance :: real where "rule1Distance = 5"
definition rule2Distance :: real where "rule2Distance = 3"
definition rule3Distance :: real where "rule3Distance = 5"

definition rule1Scale :: real where "rule1Scale = 1 / 100"
definition rule2Scale :: real where "rule2Scale = 1 / 10"
definition rule3Scale :: real where "rule3Scale = 1 / 10"

definition maxSpeed :: real where "maxSpeed = 1"

definition scene_scale :: real where "scene_scale = 100"

subsection \<open>glm::vec3\<close>

datatype vec3 = Vec3 (vx: real) (vy: real) (vz: real)

definition vzero :: vec3 where
  "vzero = Vec3 0 0 0"

fun vadd :: "vec3 \<Rightarrow> vec3 \<Rightarrow> vec3" where
  "vadd (Vec3 a b c) (Vec3 x y z) = Vec3 (a + x) (b + y) (c + z)"

fun vsub :: "vec3 \<Rightarrow> vec3 \<Rightarrow> vec3" where
  "vsub (Vec3 a b c) (Vec3 x y z) = Vec3 (a - x) (b - y) (c - z)"

text \<open>\<^verbatim>\<open>v * s\<close> and \<^verbatim>\<open>v / s\<close> for a scalar \<open>s\<close>.\<close>

fun vmuls :: "vec3 \<Rightarrow> real \<Rightarrow> vec3" where
  "vmuls (Vec3 a b c) s = Vec3 (a * s) (b * s) (c * s)"

fun vdivs :: "vec3 \<Rightarrow> real \<Rightarrow> vec3" where
  "vdivs (Vec3 a b c) s = Vec3 (a / s) (b / s) (c / s)"

fun vdot :: "vec3 \<Rightarrow> vec3 \<Rightarrow> real" where
  "vdot (Vec3 a b c) (Vec3 x y z) = a * x + b * y + c * z"

text \<open>\<^verbatim>\<open>glm::length(v) = sqrt(dot(v, v))\<close>, \<^verbatim>\<open>glm::distance(p, q) = length(q - p)\<close>.\<close>

definition vlength :: "vec3 \<Rightarrow> real" where
  "vlength v = sqrt (vdot v v)"

definition vdistance :: "vec3 \<Rightarrow> vec3 \<Rightarrow> real" where
  "vdistance p q = vlength (vsub q p)"

subsection \<open>binary32\<close>

text \<open>
  \<open>f32 x\<close> is the binary32 value nearest to \<open>x\<close>, ties to the even significand: with
  \<open>2 ^ e \<le> |x| < 2 ^ (e + 1)\<close> the result is a multiple of \<open>2 ^ (e - 23)\<close> (of \<open>2 ^ -149\<close>
  in the subnormal range). The overflow to infinity above the largest finite value is not
  modelled. \<open>vsub32\<close> is the \<^verbatim>\<open>glm::vec3\<close> subtraction with the rounding of each component.
\<close>

definition pow2 :: "int \<Rightarrow> real" where
  "pow2 k = (if 0 \<le> k then 2 ^ nat k else 1 / 2 ^ nat (- k))"

definition rne :: "real \<Rightarrow> int" where
  "rne y = (let f = \<lfloor>y\<rfloor>; d = y - of_int f
            in if d < 1 / 2 then f else if 1 / 2 < d then f + 1
               else if even f then f else f + 1)"

definition expo :: "real \<Rightarrow> int" where
  "expo x = (if 1 \<le> \<bar>x\<bar> then bitlen \<lfloor>\<bar>x\<bar>\<rfloor> - 1 else - bitlen (\<lceil>1 / \<bar>x\<bar>\<rceil> - 1))"

definition f32 :: "real \<Rightarrow> real" where
  "f32 x = (if x = 0 then 0
            else let u = pow2 (max (expo x) (- 126) - 23) in of_int (rne (x / u)) * u)"

fun vsub32 :: "vec3 \<Rightarrow> vec3 \<Rightarrow> vec3" where
  "vsub32 (Vec3 a b c) (Vec3 x y z) = Vec3 (f32 (a - x)) (f32 (b - y)) (f32 (c - z))"

subsection \<open>Device buffers and loops\<close>

definition rd :: "'a list \<Rightarrow> int \<Rightarrow> 'a option" where
  "rd xs i = (if 0 \<le> i \<and> i < int (length xs) then Some (xs ! nat i) else None)"

definition wr :: "'a list \<Rightarrow> int \<Rightarrow> 'a \<Rightarrow> 'a list option" where
  "wr xs i v = (if 0 \<le> i \<and> i < int (length xs) then Some (xs[nat i := v]) else None)"

text \<open>
  \<open>forM is body s\<close> runs \<open>body\<close> for each element of \<open>is\<close> in order, threading the state,
  and stops at the first undefined access. The loop
  \<^verbatim>\<open>for (int i = a; i <= b; i++)\<close>, whose body does not assign \<open>i\<close>, is \<open>forM [a..b]\<close>.
\<close>

fun forM :: "int list \<Rightarrow> (int \<Rightarrow> 's \<Rightarrow> 's option) \<Rightarrow> 's \<Rightarrow> 's option" where
  "forM [] body s = Some s"
| "forM (i # is) body s = do { s' \<leftarrow> body i s; forM is body s' }"

text \<open>
  A launch \<^verbatim>\<open>kern<<<blocks, blockSize>>>\<close> has \<open>blocks * blockSize\<close> threads with indices
  \<open>0 .. blocks * blockSize - 1\<close>; \<open>fullBlocksPerGrid N\<close> is
  \<^verbatim>\<open>(N + blockSize - 1) / blockSize\<close> (C division truncates towards zero).
\<close>

definition cdiv :: "int \<Rightarrow> int \<Rightarrow> int" where
  "cdiv a b = sgn a * sgn b * (\<bar>a\<bar> div \<bar>b\<bar>)"

definition fullBlocksPerGrid :: "int \<Rightarrow> int" where
  "fullBlocksPerGrid N = cdiv (N + blockSize - 1) blockSize"

definition threadIds :: "int \<Rightarrow> int list" where
  "threadIds N = [0 .. fullBlocksPerGrid N * blockSize - 1]"

subsection \<open>Rule accumulators\<close>

text \<open>
  The five accumulators of the neighbour loops: \<^verbatim>\<open>perceived_center\<close>, \<^verbatim>\<open>c\<close>,
  \<^verbatim>\<open>perceived_velocity\<close>, \<^verbatim>\<open>rule1_neighbor_count\<close>, \<^verbatim>\<open>rule3_neighbor_count\<close>
  (the field for \<^verbatim>\<open>c\<close> is called \<open>c_vec\<close>).
\<close>

record accum =
  perceived_center :: vec3
  c_vec :: vec3
  perceived_velocity :: vec3
  rule1_neighbor_count :: int
  rule3_neighbor_count :: int

definition accum0 :: accum where
  "accum0 = \<lparr>perceived_center = vzero, c_vec = vzero, perceived_velocity = vzero,
     rule1_neighbor_count = 0, rule3_neighbor_count = 0\<rparr>"

text \<open>
  The three rule tests on one candidate neighbour \<open>j\<close>, seen from \<open>iSelf\<close>. The text of this
  block is the same in \<^verbatim>\<open>computeVelocityChange\<close>, \<^verbatim>\<open>computeVelScattered\<close> and
  \<^verbatim>\<open>computeVelCoherent\<close>: \<^verbatim>\<open>pos[iSelf]\<close> and \<^verbatim>\<open>pos[j]\<close> are read for the distance,
  \<^verbatim>\<open>vel[j]\<close> only inside the third test.
\<close>

definition rules12 :: "vec3 \<Rightarrow> vec3 \<Rightarrow> accum \<Rightarrow> accum" where
  "rules12 pself pj a =
     (let distance = vdistance pself pj;
          a1 = (if distance < rule1Distance
                then a\<lparr>perceived_center := vadd (perceived_center a) pj,
                       rule1_neighbor_count := rule1_neighbor_count a + 1\<rparr>
                else a)
      in if distance < rule2Distance
         then a1\<lparr>c_vec := vsub (c_vec a1) (vsub pj pself)\<rparr>
         else a1)"

definition rule3 :: "vec3 \<Rightarrow> accum \<Rightarrow> accum" where
  "rule3 vj a = a\<lparr>perceived_velocity := vadd (perceived_velocity a) vj,
                   rule3_neighbor_count := rule3_neighbor_count a + 1\<rparr>"

definition neighborRules :: "vec3 list \<Rightarrow> vec3 list \<Rightarrow> int \<Rightarrow> int \<Rightarrow> accum \<Rightarrow> accum option" where
  "neighborRules pos vel iSelf j a =
     do {
       pself \<leftarrow> rd pos iSelf;
       pj \<leftarrow> rd pos j;
       let a2 = rules12 pself pj a;
       if vdistance pself pj < rule3Distance
       then do { vj \<leftarrow> rd vel j; Some (rule3 vj a2) }
       else Some a2
     }"

text \<open>
  The averaging of the two sums, as after the neighbour loops of all three strategies.
\<close>

definition averaged :: "vec3 \<Rightarrow> int \<Rightarrow> vec3" where
  "averaged v n = (if n > 0 then vdivs v (of_int n) else v)"

text \<open>
  The return value of \<^verbatim>\<open>computeVelocityChange\<close>:
  \<^verbatim>\<open>(perceived_center - pos[iSelf]) * rule1Scale + c * rule2Scale + perceived_velocity * rule3Scale\<close>.
\<close>

definition ruleSum :: "vec3 \<Rightarrow> accum \<Rightarrow> vec3" where
  "ruleSum pself a =
     (let pc = averaged (perceived_center a) (rule1_neighbor_count a);
          pv = averaged (perceived_velocity a) (rule3_neighbor_count a)
      in vadd (vadd (vmuls (vsub pc pself) rule1Scale) (vmuls (c_vec a) rule2Scale))
              (vmuls pv rule3Scale))"

text \<open>
  The new velocity of the two grid kernels:
  \<^verbatim>\<open>vel1[index] + (perceived_center - boid_pos) * rule1Scale + c * rule2Scale + perceived_velocity * rule3Scale\<close>
  (left-associated, so \<^verbatim>\<open>vel1[index]\<close> is added first).
\<close>

definition gridNewVel :: "vec3 \<Rightarrow> vec3 \<Rightarrow> accum \<Rightarrow> vec3" where
  "gridNewVel v boid_pos a =
     (let pc = averaged (perceived_center a) (rule1_neighbor_count a);
          pv = averaged (perceived_velocity a) (rule3_neighbor_count a)
      in vadd (vadd (vadd v (vmuls (vsub pc boid_pos) rule1Scale)) (vmuls (c_vec a) rule2Scale))
              (vmuls pv rule3Scale))"

text \<open>
  The speed clamp at the end of each of the three velocity kernels:
  \<^verbatim>\<open>speed = glm::length(new_vel); if (speed > maxSpeed) new_vel = new_vel / speed * maxSpeed;\<close>
\<close>

definition clampSpeed :: "vec3 \<Rightarrow> vec3" where
  "clampSpeed new_vel =
     (let speed = vlength new_vel
      in if speed > maxSpeed then vmuls (vdivs new_vel speed) maxSpeed else new_vel)"

subsection \<open>Brute force\<close>

definition computeVelocityChange_body ::
  "int \<Rightarrow> vec3 list \<Rightarrow> vec3 list \<Rightarrow> int \<Rightarrow> accum \<Rightarrow> accum option" where
  "computeVelocityChange_body iSelf pos vel i a =
     (if i = iSelf then Some a else neighborRules pos vel iSelf i a)"

definition computeVelocityChange :: "int \<Rightarrow> int \<Rightarrow> vec3 list \<Rightarrow> vec3 list \<Rightarrow> vec3 option" where
  "computeVelocityChange N iSelf pos vel =
     do {
       a \<leftarrow> forM [0 .. N - 1] (computeVelocityChange_body iSelf pos vel) accum0;
       pself \<leftarrow> rd pos iSelf;
       Some (ruleSum pself a)
     }"

text \<open>One thread of \<^verbatim>\<open>kernUpdateVelocityBruteForce\<close>; the state is the buffer \<^verbatim>\<open>vel2\<close>.\<close>

definition kernUpdateVelocityBruteForce ::
  "int \<Rightarrow> vec3 list \<Rightarrow> vec3 list \<Rightarrow> int \<Rightarrow> vec3 list \<Rightarrow> vec3 list option" where
  "kernUpdateVelocityBruteForce N pos vel1 index vel2 =
     (if index \<ge> N then Some vel2
      else do {
        v \<leftarrow> rd vel1 index;
        dv \<leftarrow> computeVelocityChange N index pos vel1;
        wr vel2 index (clampSpeed (vadd v dv))
      })"

subsection \<open>Position integrator\<close>

text \<open>The two conditional assignments per axis of \<^verbatim>\<open>kernUpdatePos\<close>, in source order.\<close>

definition wrapCoord :: "real \<Rightarrow> real" where
  "wrapCoord x =
     (let x1 = (if x < - scene_scale then scene_scale else x)
      in if x1 > scene_scale then - scene_scale else x1)"

definition wrapPos :: "vec3 \<Rightarrow> vec3" where
  "wrapPos p = Vec3 (wrapCoord (vx p)) (wrapCoord (vy p)) (wrapCoord (vz p))"

text \<open>One thread of \<^verbatim>\<open>kernUpdatePos\<close>; the state is the buffer \<^verbatim>\<open>pos\<close>.\<close>

definition kernUpdatePos :: "int \<Rightarrow> real \<Rightarrow> vec3 list \<Rightarrow> int \<Rightarrow> vec3 list \<Rightarrow> vec3 list option" where
  "kernUpdatePos N dt vel index pos =
     (if index \<ge> N then Some pos
      else do {
        thisPos \<leftarrow> rd pos index;
        v \<leftarrow> rd vel index;
        wr pos index (wrapPos (vadd thisPos (vmuls v dt)))
      })"

subsection \<open>Grid indexer\<close>

text \<open>The cast \<^verbatim>\<open>(int)f\<close> of a \<^verbatim>\<open>float\<close> truncates towards zero.\<close>

definition f2i :: "real \<Rightarrow> int" where
  "f2i f = (if f \<ge> 0 then \<lfloor>f\<rfloor> else \<lceil>f\<rceil>)"

definition gridIndex3Dto1D :: "int \<Rightarrow> int \<Rightarrow> int \<Rightarrow> int \<Rightarrow> int" where
  "gridIndex3Dto1D x y z gridResolution =
     x + y * gridResolution + z * gridResolution * gridResolution"

text \<open>
  The cell label that \<^verbatim>\<open>kernComputeIndices\<close> computes from \<^verbatim>\<open>boid_pos\<close>
  (the lines from \<^verbatim>\<open>relative_pos\<close> to \<^verbatim>\<open>gridIndex\<close>).
\<close>

definition boidGridIndex :: "int \<Rightarrow> vec3 \<Rightarrow> real \<Rightarrow> vec3 \<Rightarrow> int" where
  "boidGridIndex gridResolution gridMin inverseCellWidth boid_pos =
     (let relative_pos = vsub boid_pos gridMin;
          x = f2i (vx relative_pos * inverseCellWidth);
          y = f2i (vy relative_pos * inverseCellWidth);
          z = f2i (vz relative_pos * inverseCellWidth);
          x' = max 0 (min x (gridResolution - 1));
          y' = max 0 (min y (gridResolution - 1));
          z' = max 0 (min z (gridResolution - 1))
      in gridIndex3Dto1D x' y' z' gridResolution)"

text \<open>One thread of \<^verbatim>\<open>kernComputeIndices\<close>; the state is \<^verbatim>\<open>(indices, gridIndices)\<close>.\<close>

definition kernComputeIndices ::
  "int \<Rightarrow> int \<Rightarrow> vec3 \<Rightarrow> real \<Rightarrow> vec3 list \<Rightarrow> int \<Rightarrow> int list \<times> int list
     \<Rightarrow> (int list \<times> int list) option" where
  "kernComputeIndices N gridResolution gridMin inverseCellWidth pos index st =
     (if index \<ge> N then Some st
      else do {
        boid_pos \<leftarrow> rd pos index;
        let gridIndex = boidGridIndex gridResolution gridMin inverseCellWidth boid_pos;
        indices \<leftarrow> wr (fst st) index index;
        gridIndices \<leftarrow> wr (snd st) index gridIndex;
        Some (indices, gridIndices)
      })"

subsection \<open>Cell range table\<close>

text \<open>One thread of \<^verbatim>\<open>kernResetIntBuffer\<close>.\<close>

definition kernResetIntBuffer :: "int \<Rightarrow> int \<Rightarrow> int \<Rightarrow> int list \<Rightarrow> int list option" where
  "kernResetIntBuffer N v index intBuffer =
     (if index < N then wr intBuffer index v else Some intBuffer)"

text \<open>
  One thread of \<^verbatim>\<open>kernIdentifyCellStartEnd\<close>; the state is
  \<^verbatim>\<open>(gridCellStartIndices, gridCellEndIndices)\<close>. The operator \<^verbatim>\<open>||\<close> does not read
  \<^verbatim>\<open>particleGridIndices[index - 1]\<close> when \<^verbatim>\<open>index == 0\<close>, nor
  \<^verbatim>\<open>particleGridIndices[index + 1]\<close> when \<^verbatim>\<open>index == N - 1\<close>.
\<close>

definition kernIdentifyCellStartEnd ::
  "int \<Rightarrow> int list \<Rightarrow> int \<Rightarrow> int list \<times> int list \<Rightarrow> (int list \<times> int list) option" where
  "kernIdentifyCellStartEnd N particleGridIndices index st =
     (if index \<ge> N then Some st
      else do {
        gridIndex \<leftarrow> rd particleGridIndices index;
        isStart \<leftarrow> (if index = 0 then Some True
                    else do { p \<leftarrow> rd particleGridIndices (index - 1); Some (gridIndex \<noteq> p) });
        starts \<leftarrow> (if isStart then wr (fst st) gridIndex index else Some (fst st));
        isEnd \<leftarrow> (if index = N - 1 then Some True
                  else do { n \<leftarrow> rd particleGridIndices (index + 1); Some (gridIndex \<noteq> n) });
        ends \<leftarrow> (if isEnd then wr (snd st) gridIndex index else Some (snd st));
        Some (starts, ends)
      })"

subsection \<open>Neighbour query\<close>

definition computeVelScattered_body ::
  "int \<Rightarrow> int list \<Rightarrow> vec3 list \<Rightarrow> vec3 list \<Rightarrow> int \<Rightarrow> accum \<Rightarrow> accum option" where
  "computeVelScattered_body iSelf particleArrayIndices pos vel i a =
     do {
       boid_index \<leftarrow> rd particleArrayIndices i;
       if boid_index < 0 \<or> boid_index = iSelf then Some a
       else neighborRules pos vel iSelf boid_index a
     }"

definition computeVelScattered ::
  "int \<Rightarrow> int \<Rightarrow> int list \<Rightarrow> int list \<Rightarrow> int list \<Rightarrow> vec3 list \<Rightarrow> vec3 list
     \<Rightarrow> accum \<Rightarrow> accum option" where
  "computeVelScattered iSelf gridIndex gridCellStartIndices gridCellEndIndices
       particleArrayIndices pos vel a =
     do {
       start \<leftarrow> rd gridCellStartIndices gridIndex;
       end' \<leftarrow> rd gridCellEndIndices gridIndex;
       if start = -1 \<or> end' = -1 \<or> start > end' then Some a
       else forM [start .. end'] (computeVelScattered_body iSelf particleArrayIndices pos vel) a
     }"

definition computeVelCoherent_body ::
  "int \<Rightarrow> vec3 list \<Rightarrow> vec3 list \<Rightarrow> int \<Rightarrow> accum \<Rightarrow> accum option" where
  "computeVelCoherent_body iSelf pos vel i a =
     (if i = iSelf then Some a else neighborRules pos vel iSelf i a)"

definition computeVelCoherent ::
  "int \<Rightarrow> int \<Rightarrow> int list \<Rightarrow> int list \<Rightarrow> vec3 list \<Rightarrow> vec3 list \<Rightarrow> accum \<Rightarrow> accum option" where
  "computeVelCoherent iSelf gridIndex gridCellStartIndices gridCellEndIndices pos vel a =
     do {
       start \<leftarrow> rd gridCellStartIndices gridIndex;
       end' \<leftarrow> rd gridCellEndIndices gridIndex;
       if start = -1 \<or> end' = -1 \<or> start > end' then Some a
       else forM [start .. end'] (computeVelCoherent_body iSelf pos vel) a
     }"

text \<open>
  The macros \<^verbatim>\<open>SINGLE_DISTANCE_MODE\<close> and \<^verbatim>\<open>KJI_MODE\<close> are tested by \<^verbatim>\<open>#if\<close> in
  \<^verbatim>\<open>kernel.cu\<close> and defined outside it; they are parameters here.
\<close>

record modes =
  SINGLE_DISTANCE_MODE :: bool
  KJI_MODE :: bool

text \<open>
  The bounds of one loop of the cell scan: \<open>-1 .. 1\<close> under \<^verbatim>\<open>SINGLE_DISTANCE_MODE\<close>,
  otherwise \<^verbatim>\<open>(frac < 0.5f ? -1 : 0) .. (frac > 0.5f ? 1 : 0)\<close>.
\<close>

definition scanLo :: "modes \<Rightarrow> real \<Rightarrow> int" where
  "scanLo m fr = (if SINGLE_DISTANCE_MODE m then - 1 else if fr < 1 / 2 then - 1 else 0)"

definition scanHi :: "modes \<Rightarrow> real \<Rightarrow> int" where
  "scanHi m fr = (if SINGLE_DISTANCE_MODE m then 1 else if fr > 1 / 2 then 1 else 0)"

text \<open>The body of the innermost loop; \<open>cell\<close> is the call of \<^verbatim>\<open>computeVelScattered\<close> or
  \<^verbatim>\<open>computeVelCoherent\<close> on a cell label.\<close>

definition visitCell ::
  "int \<Rightarrow> int \<Rightarrow> int \<Rightarrow> int \<Rightarrow> (int \<Rightarrow> 's \<Rightarrow> 's option) \<Rightarrow> int \<Rightarrow> int \<Rightarrow> int
     \<Rightarrow> 's \<Rightarrow> 's option" where
  "visitCell gridResolution x y z cell i j k a =
     (let newX = x + i; newY = y + j; newZ = z + k
      in if newX < 0 \<or> newX \<ge> gridResolution \<or>
            newY < 0 \<or> newY \<ge> gridResolution \<or>
            newZ < 0 \<or> newZ \<ge> gridResolution
         then Some a
         else cell (gridIndex3Dto1D newX newY newZ gridResolution) a)"

text \<open>The three nested loops: \<open>k, j, i\<close> from the outside in under \<^verbatim>\<open>KJI_MODE\<close> (when
  \<^verbatim>\<open>SINGLE_DISTANCE_MODE\<close> is off), \<open>i, j, k\<close> otherwise.\<close>

definition cellScan ::
  "modes \<Rightarrow> int \<Rightarrow> int \<Rightarrow> int \<Rightarrow> int \<Rightarrow> real \<Rightarrow> real \<Rightarrow> real
     \<Rightarrow> (int \<Rightarrow> 's \<Rightarrow> 's option) \<Rightarrow> 's \<Rightarrow> 's option" where
  "cellScan m gridResolution x y z x_frac y_frac z_frac cell a =
     (if \<not> SINGLE_DISTANCE_MODE m \<and> KJI_MODE m
      then forM [scanLo m z_frac .. scanHi m z_frac] (\<lambda>k.
             forM [scanLo m y_frac .. scanHi m y_frac] (\<lambda>j.
               forM [scanLo m x_frac .. scanHi m x_frac] (\<lambda>i.
                 visitCell gridResolution x y z cell i j k))) a
      else forM [scanLo m x_frac .. scanHi m x_frac] (\<lambda>i.
             forM [scanLo m y_frac .. scanHi m y_frac] (\<lambda>j.
               forM [scanLo m z_frac .. scanHi m z_frac] (\<lambda>k.
                 visitCell gridResolution x y z cell i j k))) a)"

text \<open>
  The part shared by \<^verbatim>\<open>kernUpdateVelNeighborSearchScattered\<close> and
  \<^verbatim>\<open>kernUpdateVelNeighborSearchCoherent\<close>, whose texts differ only in the call on a cell:
  locate the cell of \<^verbatim>\<open>boid_pos\<close> and scan the cells around it. \<open>a\<close> is the state at the
  start of the loops (the zeroed accumulators in the kernels). The subtraction, the
  product and the fraction \<^verbatim>\<open>x_pos - x\<close> are \<^verbatim>\<open>float\<close> operations and are rounded.
\<close>

definition neighborSearch ::
  "modes \<Rightarrow> int \<Rightarrow> vec3 \<Rightarrow> real \<Rightarrow> vec3 \<Rightarrow> (int \<Rightarrow> 's \<Rightarrow> 's option) \<Rightarrow> 's \<Rightarrow> 's option" where
  "neighborSearch m gridResolution gridMin inverseCellWidth boid_pos cell a =
     (let relative_pos = vsub32 boid_pos gridMin;
          x_pos = f32 (vx relative_pos * inverseCellWidth);
          y_pos = f32 (vy relative_pos * inverseCellWidth);
          z_pos = f32 (vz relative_pos * inverseCellWidth);
          x = \<lfloor>x_pos\<rfloor>; y = \<lfloor>y_pos\<rfloor>; z = \<lfloor>z_pos\<rfloor>;
          x_frac = f32 (x_pos - of_int x);
          y_frac = f32 (y_pos - of_int y);
          z_frac = f32 (z_pos - of_int z)
      in cellScan m gridResolution x y z x_frac y_frac z_frac cell a)"

text \<open>One thread of each kernel; the state is the buffer \<^verbatim>\<open>vel2\<close>.\<close>

definition kernUpdateVelNeighborSearchScattered ::
  "modes \<Rightarrow> int \<Rightarrow> int \<Rightarrow> vec3 \<Rightarrow> real \<Rightarrow> real \<Rightarrow> int list \<Rightarrow> int list \<Rightarrow> int list
     \<Rightarrow> vec3 list \<Rightarrow> vec3 list \<Rightarrow> int \<Rightarrow> vec3 list \<Rightarrow> vec3 list option" where
  "kernUpdateVelNeighborSearchScattered m N gridResolution gridMin inverseCellWidth cellWidth
       gridCellStartIndices gridCellEndIndices particleArrayIndices pos vel1 index vel2 =
     (if index \<ge> N then Some vel2
      else do {
        boid_pos \<leftarrow> rd pos index;
        a \<leftarrow> neighborSearch m gridResolution gridMin inverseCellWidth boid_pos
               (\<lambda>g. computeVelScattered index g gridCellStartIndices gridCellEndIndices
                      particleArrayIndices pos vel1)
               accum0;
        v \<leftarrow> rd vel1 index;
        wr vel2 index (clampSpeed (gridNewVel v boid_pos a))
      })"

definition kernUpdateVelNeighborSearchCoherent ::
  "modes \<Rightarrow> int \<Rightarrow> int \<Rightarrow> vec3 \<Rightarrow> real \<Rightarrow> real \<Rightarrow> int list \<Rightarrow> int list
     \<Rightarrow> vec3 list \<Rightarrow> vec3 list \<Rightarrow> int \<Rightarrow> vec3 list \<Rightarrow> vec3 list option" where
  "kernUpdateVelNeighborSearchCoherent m N gridResolution gridMin inverseCellWidth cellWidth
       gridCellStartIndices gridCellEndIndices pos vel1 index vel2 =
     (if index \<ge> N then Some vel2
      else do {
        boid_pos \<leftarrow> rd pos index;
        a \<leftarrow> neighborSearch m gridResolution gridMin inverseCellWidth boid_pos
               (\<lambda>g. computeVelCoherent index g gridCellStartIndices gridCellEndIndices pos vel1)
               accum0;
        v \<leftarrow> rd vel1 index;
        wr vel2 index (clampSpeed (gridNewVel v boid_pos a))
      })"

subsection \<open>Data reorderer\<close>

text \<open>One thread of \<^verbatim>\<open>kernReorderData\<close>; the state is \<^verbatim>\<open>(pos_dst, vel_dst)\<close>. The
  element type is left open: the kernel only moves values.\<close>

definition kernReorderData ::
  "int \<Rightarrow> 'a list \<Rightarrow> 'b list \<Rightarrow> int list \<Rightarrow> int \<Rightarrow> 'a list \<times> 'b list
     \<Rightarrow> ('a list \<times> 'b list) option" where
  "kernReorderData N pos_src vel_src indices index st =
     (if index \<ge> N then Some st
      else do {
        src_idx \<leftarrow> rd indices index;
        p \<leftarrow> rd pos_src src_idx;
        pos_dst \<leftarrow> wr (fst st) index p;
        v \<leftarrow> rd vel_src src_idx;
        vel_dst \<leftarrow> wr (snd st) index v;
        Some (pos_dst, vel_dst)
      })"

subsection \<open>Kernel state and step drivers\<close>

text \<open>The globals of \<^verbatim>\<open>kernel.cu\<close>: first the scalars, then the device buffers.\<close>

record globals =
  numObjects :: int
  gridCellCount :: int
  gridSideCount :: int
  gridCellWidth :: real
  gridInverseCellWidth :: real
  gridMinimum :: vec3

record sim = globals +
  dev_pos :: "vec3 list"
  dev_vel1 :: "vec3 list"
  dev_vel2 :: "vec3 list"
  dev_particleArrayIndices :: "int list"
  dev_particleGridIndices :: "int list"
  dev_gridCellStartIndices :: "int list"
  dev_gridCellEndIndices :: "int list"
  dev_pos_temp :: "vec3 list"
  dev_vel1_temp :: "vec3 list"

text \<open>
  \<open>launch N body\<close> is \<^verbatim>\<open>kern<<<(N + blockSize - 1) / blockSize, blockSize>>>\<close> with the
  threads run in increasing index order. The launches of the step drivers are taken to
  succeed, so \<^verbatim>\<open>checkCUDAErrorWithLine\<close> after them does nothing.
\<close>

definition launch :: "int \<Rightarrow> (int \<Rightarrow> 's \<Rightarrow> 's option) \<Rightarrow> 's \<Rightarrow> 's option" where
  "launch N body s = forM (threadIds N) body s"

text \<open>
  \<^verbatim>\<open>thrust::sort_by_key(keys, keys + N, values)\<close> is library code. The step drivers take
  the sorter as a parameter; \<open>sorts_by_key\<close> is what is assumed of it (the keys come out
  non-decreasing, the key/value pairs are permuted), and \<open>sort_by_key\<close> is one such sorter.
\<close>

definition sorts_by_key :: "(int list \<Rightarrow> int list \<Rightarrow> int list \<times> int list) \<Rightarrow> bool" where
  "sorts_by_key sorter \<longleftrightarrow>
     (\<forall>keys vals. length keys = length vals \<longrightarrow>
        (case sorter keys vals of (ks, vs) \<Rightarrow>
           length ks = length keys \<and> length vs = length vals \<and> sorted ks \<and>
           mset (zip ks vs) = mset (zip keys vals)))"

definition sort_by_key :: "int list \<Rightarrow> int list \<Rightarrow> int list \<times> int list" where
  "sort_by_key keys vals = (let ps = sort_key fst (zip keys vals) in (map fst ps, map snd ps))"

definition sortRange ::
  "(int list \<Rightarrow> int list \<Rightarrow> int list \<times> int list) \<Rightarrow> int \<Rightarrow> int list \<Rightarrow> int list
     \<Rightarrow> (int list \<times> int list) option" where
  "sortRange sorter N keys vals =
     (if 0 \<le> N \<and> N \<le> int (length keys) \<and> N \<le> int (length vals)
      then (case sorter (take (nat N) keys) (take (nat N) vals) of
              (ks, vs) \<Rightarrow> Some (ks @ drop (nat N) keys, vs @ drop (nat N) vals))
      else None)"

text \<open>\<^verbatim>\<open>cudaMemcpy(dst, src, N * sizeof(glm::vec3), cudaMemcpyDeviceToDevice)\<close>.\<close>

definition memcpyN :: "int \<Rightarrow> 'a list \<Rightarrow> 'a list \<Rightarrow> 'a list option" where
  "memcpyN N dst src =
     (if 0 \<le> N \<and> N \<le> int (length dst) \<and> N \<le> int (length src)
      then Some (take (nat N) src @ drop (nat N) dst)
      else None)"

definition stepSimulationNaive :: "real \<Rightarrow> sim \<Rightarrow> sim option" where
  "stepSimulationNaive dt s =
     do {
       vel2 \<leftarrow> launch (numObjects s)
                (kernUpdateVelocityBruteForce (numObjects s) (dev_pos s) (dev_vel1 s)) (dev_vel2 s);
       pos \<leftarrow> launch (numObjects s) (kernUpdatePos (numObjects s) dt vel2) (dev_pos s);
       Some (s\<lparr>dev_pos := pos, dev_vel1 := vel2, dev_vel2 := dev_vel1 s\<rparr>)
     }"

text \<open>
  The three launches that build the range table in both grid drivers: two resets to \<open>-1\<close>
  over \<^verbatim>\<open>gridCellCount\<close> threads, then \<^verbatim>\<open>kernIdentifyCellStartEnd\<close> over \<^verbatim>\<open>numObjects\<close>
  threads.
\<close>

definition rangeTable ::
  "int \<Rightarrow> int \<Rightarrow> int list \<Rightarrow> int list \<Rightarrow> int list \<Rightarrow> (int list \<times> int list) option" where
  "rangeTable N cellCount gridIndices starts0 ends0 =
     do {
       starts \<leftarrow> launch cellCount (kernResetIntBuffer cellCount (- 1)) starts0;
       ends \<leftarrow> launch cellCount (kernResetIntBuffer cellCount (- 1)) ends0;
       launch N (kernIdentifyCellStartEnd N gridIndices) (starts, ends)
     }"

text \<open>The part common to both grid drivers: label, sort, build the range table.\<close>

definition buildGrid ::
  "(int list \<Rightarrow> int list \<Rightarrow> int list \<times> int list) \<Rightarrow> sim \<Rightarrow> sim option" where
  "buildGrid sorter s =
     do {
       (indices, gridIndices) \<leftarrow> launch (numObjects s)
           (kernComputeIndices (numObjects s) (gridSideCount s) (gridMinimum s)
              (gridInverseCellWidth s) (dev_pos s))
           (dev_particleArrayIndices s, dev_particleGridIndices s);
       (gridIndices', indices') \<leftarrow> sortRange sorter (numObjects s) gridIndices indices;
       (starts', ends') \<leftarrow> rangeTable (numObjects s) (gridCellCount s) gridIndices'
           (dev_gridCellStartIndices s) (dev_gridCellEndIndices s);
       Some (s\<lparr>dev_particleArrayIndices := indices', dev_particleGridIndices := gridIndices',
               dev_gridCellStartIndices := starts', dev_gridCellEndIndices := ends'\<rparr>)
     }"

definition stepSimulationScatteredGrid ::
  "modes \<Rightarrow> (int list \<Rightarrow> int list \<Rightarrow> int list \<times> int list) \<Rightarrow> real \<Rightarrow> sim \<Rightarrow> sim option" where
  "stepSimulationScatteredGrid m sorter dt s0 =
     do {
       s \<leftarrow> buildGrid sorter s0;
       vel2 \<leftarrow> launch (numObjects s)
           (kernUpdateVelNeighborSearchScattered m (numObjects s) (gridSideCount s)
              (gridMinimum s) (gridInverseCellWidth s) (gridCellWidth s)
              (dev_gridCellStartIndices s) (dev_gridCellEndIndices s)
              (dev_particleArrayIndices s) (dev_pos s) (dev_vel1 s))
           (dev_vel2 s);
       pos \<leftarrow> launch (numObjects s) (kernUpdatePos (numObjects s) dt vel2) (dev_pos s);
       Some (s\<lparr>dev_pos := pos, dev_vel1 := vel2, dev_vel2 := dev_vel1 s\<rparr>)
     }"

definition stepSimulationCoherentGrid ::
  "modes \<Rightarrow> (int list \<Rightarrow> int list \<Rightarrow> int list \<times> int list) \<Rightarrow> real \<Rightarrow> sim \<Rightarrow> sim option" where
  "stepSimulationCoherentGrid m sorter dt s0 =
     do {
       s \<leftarrow> buildGrid sorter s0;
       (pos_temp, vel1_temp) \<leftarrow> launch (numObjects s)
           (kernReorderData (numObjects s) (dev_pos s) (dev_vel1 s) (dev_particleArrayIndices s))
           (dev_pos_temp s, dev_vel1_temp s);
       vel2 \<leftarrow> launch (numObjects s)
           (kernUpdateVelNeighborSearchCoherent m (numObjects s) (gridSideCount s)
              (gridMinimum s) (gridInverseCellWidth s) (gridCellWidth s)
              (dev_gridCellStartIndices s) (dev_gridCellEndIndices s) pos_temp vel1_temp)
           (dev_vel2 s);
       pos_temp' \<leftarrow> launch (numObjects s) (kernUpdatePos (numObjects s) dt vel2) pos_temp;
       pos \<leftarrow> memcpyN (numObjects s) (dev_pos s) pos_temp';
       vel1 \<leftarrow> memcpyN (numObjects s) (dev_vel1 s) vel2;
       Some (s\<lparr>dev_pos := pos, dev_vel1 := vel1, dev_vel2 := vel2,
               dev_pos_temp := pos_temp', dev_vel1_temp := vel1_temp\<rparr>)
     }"

subsection \<open>Initialisation\<close>

text \<open>
  \<^verbatim>\<open>Boids::initSimulation\<close> calls the CUDA runtime and, after each call but the last,
  \<^verbatim>\<open>checkCUDAErrorWithLine\<close>, which exits when the runtime reports an error. The runtime
  is a parameter: \<open>ok c\<close> says whether it reports success after the call \<open>c\<close>. The model
  returns the calls made, in order, and either the message of the failed check or the
  globals as set. The content of the allocated buffers is not part of it.
\<close>

datatype rt_call =
  CudaMalloc string nat
| KernelLaunch string int
| CudaDeviceSynchronize

text \<open>An \<^verbatim>\<open>int\<close> count times a \<^verbatim>\<open>sizeof\<close>, computed in \<^verbatim>\<open>size_t\<close> (64 bits, unsigned).\<close>

definition size_t_bytes :: "int \<Rightarrow> int \<Rightarrow> nat" where
  "size_t_bytes n elem = nat ((n * elem) mod 2 ^ 64)"

definition sizeof_vec3 :: int where "sizeof_vec3 = 12"
definition sizeof_int :: int where "sizeof_int = 4"

fun runChecked ::
  "(rt_call \<Rightarrow> bool) \<Rightarrow> (rt_call \<times> string) list \<Rightarrow> rt_call list \<times> string option" where
  "runChecked ok [] = ([], None)"
| "runChecked ok ((c, msg) # cs) =
     (if ok c then (case runChecked ok cs of (tr, r) \<Rightarrow> (c # tr, r)) else ([c], Some msg))"

definition initGlobals :: "modes \<Rightarrow> vec3 \<Rightarrow> int \<Rightarrow> globals" where
  "initGlobals m gridMinimum0 N =
     (let cellWidth = (if SINGLE_DISTANCE_MODE m
                       then max (max rule1Distance rule2Distance) rule3Distance
                       else f32 (2 * max (max rule1Distance rule2Distance) rule3Distance));
          halfSideCount = f2i (f32 (scene_scale / cellWidth)) + 1;
          sideCount = 2 * halfSideCount;
          halfGridWidth = f32 (cellWidth * of_int halfSideCount)
      in \<lparr>numObjects = N,
          gridCellCount = sideCount * sideCount * sideCount,
          gridSideCount = sideCount,
          gridCellWidth = cellWidth,
          gridInverseCellWidth = f32 (1 / cellWidth),
          gridMinimum = Vec3 (f32 (vx gridMinimum0 - halfGridWidth))
                             (f32 (vy gridMinimum0 - halfGridWidth))
                             (f32 (vz gridMinimum0 - halfGridWidth))\<rparr>)"

definition initCalls :: "globals \<Rightarrow> (rt_call \<times> string) list" where
  "initCalls g =
     (let N = numObjects g in
      [(CudaMalloc ''dev_pos'' (size_t_bytes N sizeof_vec3), ''cudaMalloc dev_pos failed!''),
       (CudaMalloc ''dev_vel1'' (size_t_bytes N sizeof_vec3), ''cudaMalloc dev_vel1 failed!''),
       (CudaMalloc ''dev_vel2'' (size_t_bytes N sizeof_vec3), ''cudaMalloc dev_vel2 failed!''),
       (KernelLaunch ''kernGenerateRandomPosArray'' (fullBlocksPerGrid N),
          ''kernGenerateRandomPosArray failed!''),
       (CudaMalloc ''dev_particleArrayIndices'' (size_t_bytes N sizeof_int),
          ''cudaMalloc dev_particleArrayIndices failed!''),
       (CudaMalloc ''dev_particleGridIndices'' (size_t_bytes N sizeof_int),
          ''cudaMalloc dev_particleGridIndices failed!''),
       (CudaMalloc ''dev_gridCellStartIndices'' (size_t_bytes (gridCellCount g) sizeof_int),
          ''cudaMalloc dev_gridCellStartIndices failed!''),
       (CudaMalloc ''dev_gridCellEndIndices'' (size_t_bytes (gridCellCount g) sizeof_int),
          ''cudaMalloc dev_gridCellEndIndices failed!''),
       (CudaMalloc ''dev_pos_temp'' (size_t_bytes N sizeof_vec3), ''cudaMalloc dev_pos_temp failed!''),
       (CudaMalloc ''dev_vel1_temp'' (size_t_bytes N sizeof_vec3),
          ''cudaMalloc dev_vel1_temp failed!'')])"

text \<open>\<open>gridMinimum0\<close> is the value of the global \<^verbatim>\<open>gridMinimum\<close> before the call (the
  function subtracts from it); a global \<^verbatim>\<open>glm::vec3\<close> starts as zero.\<close>

definition initSimulation ::
  "modes \<Rightarrow> (rt_call \<Rightarrow> bool) \<Rightarrow> vec3 \<Rightarrow> int \<Rightarrow> rt_call list \<times> (string + globals)" where
  "initSimulation m ok gridMinimum0 N =
     (let g = initGlobals m gridMinimum0 N
      in case runChecked ok (initCalls g) of
           (tr, Some msg) \<Rightarrow> (tr, Inl msg)
         | (tr, None) \<Rightarrow> (tr @ [CudaDeviceSynchronize], Inr g))"

section \<open>Notions used in the statements\<close>

text \<open>
  The rule tests on neighbour \<open>j\<close> seen from \<open>i\<close> when all reads are inside the buffers
  (\<open>neighborRules\<close> without the bounds checks), the accumulators of the brute-force loop
  over \<open>N\<close> agents, and the velocity that \<^verbatim>\<open>kernUpdateVelocityBruteForce\<close> writes for
  agent \<open>i\<close>.
\<close>

definition neighborStep :: "vec3 list \<Rightarrow> vec3 list \<Rightarrow> nat \<Rightarrow> nat \<Rightarrow> accum \<Rightarrow> accum" where
  "neighborStep pos vel i j a =
     (let a2 = rules12 (pos ! i) (pos ! j) a
      in if vdistance (pos ! i) (pos ! j) < rule3Distance then rule3 (vel ! j) a2 else a2)"

definition bruteAccum :: "nat \<Rightarrow> vec3 list \<Rightarrow> vec3 list \<Rightarrow> nat \<Rightarrow> accum" where
  "bruteAccum N pos vel i = fold (neighborStep pos vel i) (filter (\<lambda>j. j \<noteq> i) [0 ..< N]) accum0"

definition bruteVel :: "nat \<Rightarrow> vec3 list \<Rightarrow> vec3 list \<Rightarrow> nat \<Rightarrow> vec3" where
  "bruteVel N pos vel i = clampSpeed (vadd (vel ! i) (ruleSum (pos ! i) (bruteAccum N pos vel i)))"

text \<open>
  The range table. Position \<open>t\<close> of the sorted labels starts a cell when it is the first
  position or its label differs from the one before, and ends a cell when it is the last
  position or its label differs from the one after (the two tests of
  \<^verbatim>\<open>kernIdentifyCellStartEnd\<close>). \<open>startStep\<close> and \<open>endStep\<close> are the writes of thread \<open>t\<close> to
  the two tables when all its accesses are inside the buffers. \<open>rangeTableOK\<close> is the
  invariant of the table: a cell with agents owns exactly the positions \<open>start .. end\<close>
  that carry its label, a cell without agents has \<open>-1\<close> in both tables.
\<close>

definition isCellStart :: "int list \<Rightarrow> nat \<Rightarrow> bool" where
  "isCellStart keys t \<longleftrightarrow> t = 0 \<or> keys ! (t - 1) \<noteq> keys ! t"

definition isCellEnd :: "int list \<Rightarrow> nat \<Rightarrow> bool" where
  "isCellEnd keys t \<longleftrightarrow> Suc t = length keys \<or> keys ! Suc t \<noteq> keys ! t"

definition rangeTableOK :: "int list \<Rightarrow> int list \<Rightarrow> int list \<Rightarrow> bool" where
  "rangeTableOK keys starts ends \<longleftrightarrow>
     length starts = length ends \<and>
     (\<forall>g < length starts.
        if int g \<in> set keys
        then \<exists>s e. starts ! g = int s \<and> ends ! g = int e \<and> s \<le> e \<and> e < length keys \<and>
                   (\<forall>k < length keys. keys ! k = int g \<longleftrightarrow> s \<le> k \<and> k \<le> e)
        else starts ! g = - 1 \<and> ends ! g = - 1)"

definition startStep :: "int list \<Rightarrow> int \<Rightarrow> int list \<Rightarrow> int list" where
  "startStep keys t st =
     (if t < int (length keys) \<and> isCellStart keys (nat t) then st[nat (keys ! nat t) := t] else st)"

definition endStep :: "int list \<Rightarrow> int \<Rightarrow> int list \<Rightarrow> int list" where
  "endStep keys t en =
     (if t < int (length keys) \<and> isCellEnd keys (nat t) then en[nat (keys ! nat t) := t] else en)"

text \<open>A runtime that reports success after every call, and the macros both off.\<close>

definition rt_always_ok :: "rt_call \<Rightarrow> bool" where
  "rt_always_ok c = True"

definition default_modes :: modes where
  "default_modes = \<lparr>SINGLE_DISTANCE_MODE = False, KJI_MODE = False\<rparr>"

text \<open>
  The cells of a scan as a list. \<open>cellList\<close> is what \<open>visitCell\<close> hands on for the offset
  \<open>(i, j, k)\<close> when cell \<open>g\<close> contributes the list \<open>E g\<close>; \<open>scanList\<close> concatenates these in the
  order of the loops of \<open>cellScan\<close>, and \<open>scanAgents\<close> does so for the cell and the fractions
  that \<open>neighborSearch\<close> computes from a position. \<open>cellAgents\<close> lists the agents whose label
  is \<open>g\<close>, in the order of the sorted label array.
\<close>

definition cellList ::
  "int \<Rightarrow> int \<Rightarrow> int \<Rightarrow> int \<Rightarrow> (int \<Rightarrow> 'a list) \<Rightarrow> int \<Rightarrow> int \<Rightarrow> int \<Rightarrow> 'a list" where
  "cellList gridResolution x y z E i j k =
     (if x + i < 0 \<or> x + i \<ge> gridResolution \<or>
         y + j < 0 \<or> y + j \<ge> gridResolution \<or>
         z + k < 0 \<or> z + k \<ge> gridResolution
      then []
      else E (gridIndex3Dto1D (x + i) (y + j) (z + k) gridResolution))"

definition scanList ::
  "modes \<Rightarrow> int \<Rightarrow> int \<Rightarrow> int \<Rightarrow> int \<Rightarrow> real \<Rightarrow> real \<Rightarrow> real \<Rightarrow> (int \<Rightarrow> 'a list) \<Rightarrow> 'a list" where
  "scanList m gridResolution x y z x_frac y_frac z_frac E =
     (if \<not> SINGLE_DISTANCE_MODE m \<and> KJI_MODE m
      then concat (map (\<lambda>k.
             concat (map (\<lambda>j.
               concat (map (\<lambda>i. cellList gridResolution x y z E i j k)
                 [scanLo m x_frac .. scanHi m x_frac]))
               [scanLo m y_frac .. scanHi m y_frac]))
             [scanLo m z_frac .. scanHi m z_frac])
      else concat (map (\<lambda>i.
             concat (map (\<lambda>j.
               concat (map (\<lambda>k. cellList gridResolution x y z E i j k)
                 [scanLo m z_frac .. scanHi m z_frac]))
               [scanLo m y_frac .. scanHi m y_frac]))
             [scanLo m x_frac .. scanHi m x_frac]))"

definition scanAgents ::
  "modes \<Rightarrow> int \<Rightarrow> vec3 \<Rightarrow> real \<Rightarrow> (int \<Rightarrow> 'a list) \<Rightarrow> vec3 \<Rightarrow> 'a list" where
  "scanAgents m gridResolution gridMin inverseCellWidth E boid_pos =
     (let relative_pos = vsub32 boid_pos gridMin;
          x_pos = f32 (vx relative_pos * inverseCellWidth);
          y_pos = f32 (vy relative_pos * inverseCellWidth);
          z_pos = f32 (vz relative_pos * inverseCellWidth);
          x = \<lfloor>x_pos\<rfloor>; y = \<lfloor>y_pos\<rfloor>; z = \<lfloor>z_pos\<rfloor>
      in scanList m gridResolution x y z (f32 (x_pos - of_int x)) (f32 (y_pos - of_int y))
           (f32 (z_pos - of_int z)) E)"

definition cellAgents :: "int list \<Rightarrow> int list \<Rightarrow> int \<Rightarrow> nat list" where
  "cellAgents keys indices g =
     map (\<lambda>k. nat (indices ! k)) (filter (\<lambda>k. keys ! k = g) [0 ..< length keys])"

text \<open>
  \<open>gridOK\<close> describes the buffers of \<open>n\<close> agents after the grid has been built: \<open>indices\<close> is
  a permutation of the agents, \<open>keys\<close> has one label per position, and the two tables, one
  entry per cell, satisfy \<open>rangeTableOK\<close>.
\<close>

definition gridOK :: "int \<Rightarrow> int list \<Rightarrow> int list \<Rightarrow> nat \<Rightarrow> int list \<Rightarrow> int list \<Rightarrow> bool" where
  "gridOK gridResolution keys indices n starts ends \<longleftrightarrow>
     length keys = n \<and> length indices = n \<and>
     mset indices = mset (map int [0 ..< n]) \<and>
     int (length starts) = gridResolution * gridResolution * gridResolution \<and>
     rangeTableOK keys starts ends"

text \<open>
  The accumulators of a grid kernel for agent \<open>i\<close>: the rule tests on the agents of the
  scanned cells other than \<open>i\<close> itself, in the order of the scan; and the velocity the kernel
  writes for \<open>i\<close>.
\<close>

definition gridAccum ::
  "modes \<Rightarrow> int \<Rightarrow> vec3 \<Rightarrow> real \<Rightarrow> int list \<Rightarrow> int list \<Rightarrow> vec3 list \<Rightarrow> vec3 list \<Rightarrow> nat
     \<Rightarrow> accum" where
  "gridAccum m gridResolution gridMin inverseCellWidth keys indices pos vel i =
     fold (neighborStep pos vel i)
       (scanAgents m gridResolution gridMin inverseCellWidth
          (\<lambda>g. filter (\<lambda>j. j \<noteq> i) (cellAgents keys indices g)) (pos ! i))
       accum0"

definition gridVel ::
  "modes \<Rightarrow> int \<Rightarrow> vec3 \<Rightarrow> real \<Rightarrow> int list \<Rightarrow> int list \<Rightarrow> vec3 list \<Rightarrow> vec3 list \<Rightarrow> nat
     \<Rightarrow> vec3" where
  "gridVel m gridResolution gridMin inverseCellWidth keys indices pos vel i =
     clampSpeed (vadd (vel ! i)
       (ruleSum (pos ! i) (gridAccum m gridResolution gridMin inverseCellWidth keys indices pos vel i)))"

definition gridVels ::
  "modes \<Rightarrow> int \<Rightarrow> vec3 \<Rightarrow> real \<Rightarrow> int list \<Rightarrow> int list \<Rightarrow> vec3 list \<Rightarrow> vec3 list
     \<Rightarrow> vec3 list" where
  "gridVels m gridResolution gridMin inverseCellWidth keys indices pos vel =
     map (gridVel m gridResolution gridMin inverseCellWidth keys indices pos vel) [0 ..< length pos]"

text \<open>
  The state in which a step is run. \<open>simOK\<close> says that the buffers have the sizes
  \<^verbatim>\<open>initSimulation\<close> allocates them with and that the grid has \<open>gridSideCount\<close> cells per
  axis. \<open>sortedLabels\<close> is the result of the sort on the labels of the current positions.
  \<open>integrate\<close> and \<open>bruteVels\<close> are the arrays that \<^verbatim>\<open>kernUpdatePos\<close> and
  \<^verbatim>\<open>kernUpdateVelocityBruteForce\<close> write, \<open>permuted indices xs\<close> is \<open>xs\<close> read through
  \<open>indices\<close>.
\<close>

definition simOK :: "sim \<Rightarrow> bool" where
  "simOK s \<longleftrightarrow>
     0 \<le> numObjects s \<and>
     int (length (dev_pos s)) = numObjects s \<and>
     int (length (dev_vel1 s)) = numObjects s \<and>
     int (length (dev_vel2 s)) = numObjects s \<and>
     int (length (dev_particleArrayIndices s)) = numObjects s \<and>
     int (length (dev_particleGridIndices s)) = numObjects s \<and>
     int (length (dev_pos_temp s)) = numObjects s \<and>
     int (length (dev_vel1_temp s)) = numObjects s \<and>
     0 < gridSideCount s \<and>
     gridCellCount s = gridSideCount s * gridSideCount s * gridSideCount s \<and>
     int (length (dev_gridCellStartIndices s)) = gridCellCount s \<and>
     int (length (dev_gridCellEndIndices s)) = gridCellCount s"

definition sortedLabels ::
  "(int list \<Rightarrow> int list \<Rightarrow> int list \<times> int list) \<Rightarrow> sim \<Rightarrow> int list \<times> int list" where
  "sortedLabels sorter s =
     sorter (map (boidGridIndex (gridSideCount s) (gridMinimum s) (gridInverseCellWidth s)) (dev_pos s))
            (map int [0 ..< length (dev_pos s)])"

definition integrate :: "real \<Rightarrow> vec3 list \<Rightarrow> vec3 list \<Rightarrow> vec3 list" where
  "integrate dt pos vel = map (\<lambda>i. wrapPos (vadd (pos ! i) (vmuls (vel ! i) dt))) [0 ..< length pos]"

definition bruteVels :: "vec3 list \<Rightarrow> vec3 list \<Rightarrow> vec3 list" where
  "bruteVels pos vel = map (bruteVel (length pos) pos vel) [0 ..< length pos]"

definition permuted :: "int list \<Rightarrow> 'a list \<Rightarrow> 'a list" where
  "permuted indices xs = map (\<lambda>k. xs ! nat (indices ! k)) [0 ..< length xs]"

text \<open>
  Two states on the grid that \<^verbatim>\<open>initSimulation\<close> sets up (22 cells of width 10 per axis
  from \<open>-110\<close>, inverse cell width \<open>0.1f\<close>). In \<open>demo_sim\<close> agents 0 and 2 are two units apart
  and agent 1 is far from both. In \<open>tie_sim\<close> the two agents are \<open>5 - 2 ^ -17\<close> apart, in
  neighbouring cells, and the first agent's offset from the grid minimum rounds to the
  middle of its cell.
\<close>

definition demo_sim :: sim where
  "demo_sim =
     \<lparr>numObjects = 3, gridCellCount = 10648, gridSideCount = 22, gridCellWidth = 10,
      gridInverseCellWidth = 13421773 / 134217728, gridMinimum = Vec3 (- 110) (- 110) (- 110),
      dev_pos = [Vec3 1 0 0, Vec3 (- 50) 0 0, Vec3 (- 1) 0 0],
      dev_vel1 = [Vec3 0 0 0, Vec3 0 0 0, Vec3 0 (1 / 2) 0],
      dev_vel2 = [vzero, vzero, vzero],
      dev_particleArrayIndices = [0, 0, 0],
      dev_particleGridIndices = [0, 0, 0],
      dev_gridCellStartIndices = replicate 10648 0,
      dev_gridCellEndIndices = replicate 10648 0,
      dev_pos_temp = [vzero, vzero, vzero],
      dev_vel1_temp = [vzero, vzero, vzero]\<rparr>"

definition tie_sim :: sim where
  "tie_sim =
     \<lparr>numObjects = 2, gridCellCount = 10648, gridSideCount = 22, gridCellWidth = 10,
      gridInverseCellWidth = 13421773 / 134217728, gridMinimum = Vec3 (- 110) (- 110) (- 110),
      dev_pos = [Vec3 (95 + 1 / 131072) 0 0, Vec3 100 0 0],
      dev_vel1 = [Vec3 0 0 0, Vec3 0 0 0],
      dev_vel2 = [vzero, vzero],
      dev_particleArrayIndices = [0, 0],
      dev_particleGridIndices = [0, 0],
      dev_gridCellStartIndices = replicate 10648 0,
      dev_gridCellEndIndices = replicate 10648 0,
      dev_pos_temp = [vzero, vzero],
      dev_vel1_temp = [vzero, vzero]\<rparr>"

section \<open>Buffers, loops and launches\<close>

lemma rd_Some_iff: "rd xs i = Some v \<longleftrightarrow> 0 \<le> i \<and> i < int (length xs) \<and> v = xs ! nat i"
  by (auto simp: rd_def)

lemma rd_in_range: "0 \<le> i \<Longrightarrow> i < int (length xs) \<Longrightarrow> rd xs i = Some (xs ! nat i)"
  by (simp add: rd_def)

lemma wr_in_range: "0 \<le> i \<Longrightarrow> i < int (length xs) \<Longrightarrow> wr xs i v = Some (xs[nat i := v])"
  by (simp add: wr_def)

lemma wr_Some_iff: "wr xs i v = Some ys \<longleftrightarrow> 0 \<le> i \<and> i < int (length xs) \<and> ys = xs[nat i := v]"
  by (auto simp: wr_def)

lemma forM_append: "forM (xs @ ys) body s = do { s' \<leftarrow> forM xs body s; forM ys body s' }"
  by (induction xs arbitrary: s) (auto split: bind_splits)

lemma forM_upto_rule:
  assumes "lo \<le> hi + 1" and "I lo s0"
    and "\<And>i s. lo \<le> i \<Longrightarrow> i \<le> hi \<Longrightarrow> I i s \<Longrightarrow> \<exists>s'. body i s = Some s' \<and> I (i + 1) s'"
  shows "\<exists>s'. forM [lo .. hi] body s0 = Some s' \<and> I (hi + 1) s'"
  using assms
proof (induction "nat (hi + 1 - lo)" arbitrary: lo s0)
  case 0
  then have "lo = hi + 1" by simp
  with 0 show ?case by simp
next
  case (Suc n)
  then have le: "lo \<le> hi" by linarith
  from Suc.prems(3)[OF order_refl le Suc.prems(2)]
  obtain s1 where s1: "body lo s0 = Some s1" "I (lo + 1) s1" by blast
  have "\<exists>s'. forM [lo + 1 .. hi] body s1 = Some s' \<and> I (hi + 1) s'"
  proof (rule Suc.hyps(1))
    show "n = nat (hi + 1 - (lo + 1))" using Suc.hyps(2) by linarith
    show "lo + 1 \<le> hi + 1" using le by simp
    show "I (lo + 1) s1" by (rule s1)
    show "\<And>i s. lo + 1 \<le> i \<Longrightarrow> i \<le> hi \<Longrightarrow> I i s \<Longrightarrow> \<exists>s'. body i s = Some s' \<and> I (i + 1) s'"
      using Suc.prems(3) by force
  qed
  then show ?case using s1 le by (simp add: upto_rec1)
qed

lemma fullBlocks_cover: "0 \<le> N \<Longrightarrow> N \<le> fullBlocksPerGrid N * blockSize"
  unfolding fullBlocksPerGrid_def cdiv_def blockSize_def
  by (cases "N = 0") (auto simp: sgn_if)

lemma wrapCoord_bounds: "- scene_scale \<le> wrapCoord x \<and> wrapCoord x \<le> scene_scale"
  by (simp add: wrapCoord_def scene_scale_def Let_def)

lemma wrapCoord_cases:
  "wrapCoord x = (if x < - scene_scale then scene_scale
                  else if x > scene_scale then - scene_scale else x)"
  by (simp add: wrapCoord_def scene_scale_def Let_def)

lemma launch_map:
  assumes N: "0 \<le> N" "N \<le> int (length s0)"
    and body: "\<And>i s. 0 \<le> i \<Longrightarrow> i < N \<Longrightarrow> length s = length s0 \<Longrightarrow> s ! nat i = s0 ! nat i \<Longrightarrow>
                 body i s = Some (s[nat i := f (nat i)])"
    and skip: "\<And>i s. N \<le> i \<Longrightarrow> body i s = Some s"
  shows "launch N body s0 = Some (map f [0 ..< nat N] @ drop (nat N) s0)"
proof -
  define M where "M = fullBlocksPerGrid N * blockSize"
  define I where "I = (\<lambda>i s. s = map f [0 ..< nat (min i N)] @ drop (nat (min i N)) s0)"
  have M: "N \<le> M" unfolding M_def by (rule fullBlocks_cover[OF N(1)])
  have "\<exists>s'. forM [0 .. M - 1] body s0 = Some s' \<and> I (M - 1 + 1) s'"
  proof (rule forM_upto_rule)
    show "0 \<le> M - 1 + 1" using M N by simp
    show "I 0 s0" using N by (simp add: I_def)
    fix i s assume i: "0 \<le> i" "i \<le> M - 1" and Is: "I i s"
    show "\<exists>s'. body i s = Some s' \<and> I (i + 1) s'"
    proof (cases "i < N")
      case True
      have s: "s = map f [0 ..< nat i] @ drop (nat i) s0" using Is True by (simp add: I_def min_def)
      have len: "length s = length s0" using s True N i by (simp add: s)
      have lt: "nat i < length s0" using True N i by linarith
      have nth: "s ! nat i = s0 ! nat i"
        by (subst s) (simp add: nth_append lt less_imp_le)
      have b: "body i s = Some (s[nat i := f (nat i)])" by (rule body[OF i(1) True len nth])
      have "s[nat i := f (nat i)] = map f [0 ..< nat (i + 1)] @ drop (nat (i + 1)) s0"
      proof -
        have n1: "nat (i + 1) = Suc (nat i)" using i by simp
        have d: "drop (nat i) s0 = s0 ! nat i # drop (Suc (nat i)) s0"
          using lt by (simp add: Cons_nth_drop_Suc)
        show ?thesis
          by (subst s) (simp add: n1 d list_update_append)
      qed
      then show ?thesis using b True by (simp add: I_def min_def)
    next
      case False
      then have "body i s = Some s" using skip by simp
      then show ?thesis using Is False by (simp add: I_def min_def)
    qed
  qed
  then show ?thesis using M by (simp add: launch_def threadIds_def M_def I_def min_def)
qed

lemma launch_map2:
  assumes N: "0 \<le> N" "N \<le> int (length a0)" "N \<le> int (length b0)"
    and body: "\<And>i a b. 0 \<le> i \<Longrightarrow> i < N \<Longrightarrow> length a = length a0 \<Longrightarrow> length b = length b0 \<Longrightarrow>
                 body i (a, b) = Some (a[nat i := f (nat i)], b[nat i := g (nat i)])"
    and skip: "\<And>i s. N \<le> i \<Longrightarrow> body i s = Some s"
  shows "launch N body (a0, b0) =
           Some (map f [0 ..< nat N] @ drop (nat N) a0, map g [0 ..< nat N] @ drop (nat N) b0)"
proof -
  define M where "M = fullBlocksPerGrid N * blockSize"
  define I where "I = (\<lambda>i s. s = (map f [0 ..< nat (min i N)] @ drop (nat (min i N)) a0,
                                     map g [0 ..< nat (min i N)] @ drop (nat (min i N)) b0))"
  have M: "N \<le> M" unfolding M_def by (rule fullBlocks_cover[OF N(1)])
  have "\<exists>s'. forM [0 .. M - 1] body (a0, b0) = Some s' \<and> I (M - 1 + 1) s'"
  proof (rule forM_upto_rule)
    show "0 \<le> M - 1 + 1" using M N by simp
    show "I 0 (a0, b0)" using N by (simp add: I_def)
    fix i s assume i: "0 \<le> i" "i \<le> M - 1" and Is: "I i s"
    show "\<exists>s'. body i s = Some s' \<and> I (i + 1) s'"
    proof (cases "i < N")
      case True
      define a where "a = map f [0 ..< nat i] @ drop (nat i) a0"
      define b where "b = map g [0 ..< nat i] @ drop (nat i) b0"
      have s: "s = (a, b)" using Is True by (simp add: I_def min_def a_def b_def)
      have lta: "nat i < length a0" and ltb: "nat i < length b0" using True N i by linarith+
      have lena: "length a = length a0" and lenb: "length b = length b0"
        using lta ltb by (simp_all add: a_def b_def)
      have bd: "body i s = Some (a[nat i := f (nat i)], b[nat i := g (nat i)])"
        unfolding s by (rule body[OF i(1) True lena lenb])
      have n1: "nat (i + 1) = Suc (nat i)" using i by simp
      have "a[nat i := f (nat i)] = map f [0 ..< nat (i + 1)] @ drop (nat (i + 1)) a0"
        using lta by (simp add: a_def n1 Cons_nth_drop_Suc[symmetric] list_update_append)
      moreover have "b[nat i := g (nat i)] = map g [0 ..< nat (i + 1)] @ drop (nat (i + 1)) b0"
        using ltb by (simp add: b_def n1 Cons_nth_drop_Suc[symmetric] list_update_append)
      ultimately show ?thesis using bd True by (simp add: I_def min_def)
    next
      case False
      then have "body i s = Some s" using skip by simp
      then show ?thesis using Is False by (simp add: I_def min_def)
    qed
  qed
  then show ?thesis using M by (simp add: launch_def threadIds_def M_def I_def min_def)
qed

section \<open>Position integrator\<close>

lemma singleton_nth: "length xs = Suc 0 \<Longrightarrow> xs = [xs ! 0]"
  by (cases xs) auto

lemma kernUpdatePos_launch:
  assumes "0 \<le> N" "N \<le> int (length pos)" "N \<le> int (length vel)"
  shows "launch N (kernUpdatePos N dt vel) pos =
           Some (map (\<lambda>i. wrapPos (vadd (pos ! i) (vmuls (vel ! i) dt))) [0 ..< nat N]
                 @ drop (nat N) pos)"
proof (rule launch_map[OF assms(1,2)])
  fix i s assume "0 \<le> i" "i < N" "length s = length pos" "s ! nat i = pos ! nat i"
  then show "kernUpdatePos N dt vel i s =
               Some (s[nat i := wrapPos (vadd (pos ! nat i) (vmuls (vel ! nat i) dt))])"
    using assms by (simp add: kernUpdatePos_def rd_def wr_def)
next
  fix i s assume "N \<le> i"
  then show "kernUpdatePos N dt vel i (s::vec3 list) = Some s" by (simp add: kernUpdatePos_def)
qed

text \<open>
  Claim C6. One launch of \<^verbatim>\<open>kernUpdatePos\<close> over \<open>N\<close> agents returns, and writes for every
  agent \<open>i\<close> the position \<open>pos[i] + vel[i] * dt\<close> wrapped once per axis: a coordinate below
  \<open>-scene_scale\<close> becomes \<open>scene_scale\<close>, one above \<open>scene_scale\<close> becomes \<open>-scene_scale\<close>,
  any other is kept. Every coordinate of every agent is then in
  \<open>[-scene_scale, scene_scale]\<close>.
\<close>

theorem kernUpdatePos_wrap:
  assumes "0 \<le> N" "N \<le> int (length pos)" "N \<le> int (length vel)"
  shows "\<exists>pos'. launch N (kernUpdatePos N dt vel) pos = Some pos' \<and> length pos' = length pos \<and>
           (\<forall>i < nat N.
              pos' ! i = wrapPos (vadd (pos ! i) (vmuls (vel ! i) dt)) \<and>
              - scene_scale \<le> vx (pos' ! i) \<and> vx (pos' ! i) \<le> scene_scale \<and>
              - scene_scale \<le> vy (pos' ! i) \<and> vy (pos' ! i) \<le> scene_scale \<and>
              - scene_scale \<le> vz (pos' ! i) \<and> vz (pos' ! i) \<le> scene_scale) \<and>
           (\<forall>p. wrapPos p = Vec3 (wrapCoord (vx p)) (wrapCoord (vy p)) (wrapCoord (vz p))) \<and>
           (\<forall>x. wrapCoord x = (if x < - scene_scale then scene_scale
                               else if x > scene_scale then - scene_scale else x))"
proof -
  let ?f = "\<lambda>i. wrapPos (vadd (pos ! i) (vmuls (vel ! i) dt))"
  let ?pos' = "map ?f [0 ..< nat N] @ drop (nat N) pos"
  have 1: "launch N (kernUpdatePos N dt vel) pos = Some ?pos'"
    by (rule kernUpdatePos_launch[OF assms])
  have 2: "length ?pos' = length pos" using assms by simp
  have 3: "?pos' ! i = ?f i" if "i < nat N" for i
    using that by (simp add: nth_append)
  have 4: "- scene_scale \<le> vx (?f i) \<and> vx (?f i) \<le> scene_scale \<and>
           - scene_scale \<le> vy (?f i) \<and> vy (?f i) \<le> scene_scale \<and>
           - scene_scale \<le> vz (?f i) \<and> vz (?f i) \<le> scene_scale" for i
    using wrapCoord_bounds by (simp add: wrapPos_def)
  show ?thesis
    apply (rule exI[of _ ?pos'])
    apply (intro conjI)
        apply (rule 1)
       apply (rule 2)
    using 3 4 apply simp
     apply (simp add: wrapPos_def)
    apply (simp add: wrapCoord_cases)
    done
qed

text \<open>
  An agent at \<open>(99, 50, -100)\<close> with velocity \<open>(2, 0, -1)\<close> and \<open>dt = 1\<close> reaches
  \<open>(101, 50, -101)\<close> and is wrapped to \<open>(-100, 50, 100)\<close>.
\<close>

theorem kernUpdatePos_wrap_witness:
  "launch 1 (kernUpdatePos 1 1 [Vec3 2 0 (- 1)]) [Vec3 99 50 (- 100)] = Some [Vec3 (- 100) 50 100]"
proof -
  obtain pos' where l: "launch 1 (kernUpdatePos 1 1 [Vec3 2 0 (- 1)]) [Vec3 99 50 (- 100)] = Some pos'"
    and n: "length pos' = length [Vec3 99 50 (- 100)]"
    and v: "\<forall>i < nat 1. pos' ! i = wrapPos (vadd ([Vec3 99 50 (- 100)] ! i) (vmuls ([Vec3 2 0 (- 1)] ! i) 1))"
    using kernUpdatePos_wrap[of 1 "[Vec3 99 50 (- 100)]" "[Vec3 2 0 (- 1)]" 1] by auto
  have "pos' ! 0 = Vec3 (- 100) 50 100"
    using v by (simp add: wrapPos_def wrapCoord_def scene_scale_def)
  moreover have "pos' = [pos' ! 0]" using n by (simp add: singleton_nth)
  ultimately show ?thesis using l by simp
qed

section \<open>Speed clamp and brute-force kernel\<close>

lemma vlength_nonneg: "0 \<le> vlength v"
  by (cases v) (simp add: vlength_def)

lemma vlength_sq: "(vlength v)\<^sup>2 = vdot v v"
  by (cases v) (simp add: vlength_def power2_eq_square)

lemma vlength_vmuls: "vlength (vmuls v k) = \<bar>k\<bar> * vlength v"
proof (cases v)
  case (Vec3 a b c)
  have "a * k * (a * k) + b * k * (b * k) + c * k * (c * k) = k\<^sup>2 * (a * a + b * b + c * c)"
    by (simp add: power2_eq_square algebra_simps)
  then show ?thesis
    by (simp add: Vec3 vlength_def real_sqrt_mult)
qed

lemma vdivs_vmuls: "vmuls (vdivs v s) m = vmuls v (m / s)"
  by (cases v) simp

lemma vmuls_one: "vmuls v 1 = v"
  by (cases v) simp

lemma clampSpeed_over:
  assumes "vlength v > maxSpeed"
  shows "clampSpeed v = vmuls v (maxSpeed / vlength v)" "vlength (clampSpeed v) = maxSpeed"
proof -
  show 1: "clampSpeed v = vmuls v (maxSpeed / vlength v)"
    using assms by (simp add: clampSpeed_def Let_def vdivs_vmuls)
  have "vlength v > 0" using assms by (simp add: maxSpeed_def)
  then show "vlength (clampSpeed v) = maxSpeed"
    by (simp add: 1 vlength_vmuls maxSpeed_def)
qed

lemma clampSpeed_under: "vlength v \<le> maxSpeed \<Longrightarrow> clampSpeed v = v"
  by (simp add: clampSpeed_def Let_def)

lemma clampSpeed_le: "vlength (clampSpeed v) \<le> maxSpeed"
proof (cases "vlength v > maxSpeed")
  case True
  then show ?thesis using clampSpeed_over(2)[OF True] by simp
next
  case False
  then show ?thesis by (simp add: clampSpeed_under)
qed

lemma vadd_assoc: "vadd (vadd a b) c = vadd a (vadd b c)"
  by (cases a; cases b; cases c) simp

lemma vadd_commute: "vadd a b = vadd b a"
  by (cases a; cases b) simp

lemma gridNewVel_ruleSum: "gridNewVel v p a = vadd v (ruleSum p a)"
  by (simp add: gridNewVel_def ruleSum_def Let_def vadd_assoc)

lemma neighborRules_Some:
  assumes "0 \<le> i" "i < int (length pos)" "0 \<le> j" "j < int (length pos)" "j < int (length vel)"
  shows "neighborRules pos vel i j a = Some (neighborStep pos vel (nat i) (nat j) a)"
  using assms by (simp add: neighborRules_def neighborStep_def rd_def Let_def)

lemma forM_pure:
  assumes "\<And>k a. k \<in> set ks \<Longrightarrow> body k a = Some (h k a)"
  shows "forM ks body a = Some (fold h ks a)"
  using assms by (induction ks arbitrary: a) auto

lemma upto_0_map: "0 \<le> N \<Longrightarrow> [0 .. N - 1] = map int [0 ..< nat N]"
proof (induction "nat N" arbitrary: N)
  case 0
  then show ?case by simp
next
  case (Suc n)
  then have N: "0 < N" and n: "n = nat (N - 1)" by linarith+
  have "[0 .. N - 1] = [0 .. N - 1 - 1] @ [N - 1]"
    using N by (intro upto_rec2) simp
  also have "[0 .. N - 1 - 1] = map int [0 ..< nat (N - 1)]"
    using Suc.hyps(1)[OF n] N by simp
  also have "map int [0 ..< nat (N - 1)] @ [N - 1] = map int [0 ..< nat N]"
  proof -
    have "nat N = Suc (nat (N - 1))" using N by simp
    then show ?thesis using N by simp
  qed
  finally show ?case .
qed

lemma fold_map_filter_int:
  "fold (\<lambda>k a. if k = int i then a else h (nat k) a) (map int js) a =
   fold h (filter (\<lambda>j. j \<noteq> i) js) a"
  by (induction js arbitrary: a) auto

lemma computeVelocityChange_Some:
  assumes "0 \<le> N" "N \<le> int (length pos)" "N \<le> int (length vel)" "i < nat N"
  shows "computeVelocityChange N (int i) pos vel = Some (ruleSum (pos ! i) (bruteAccum (nat N) pos vel i))"
proof -
  have "forM [0 .. N - 1] (computeVelocityChange_body (int i) pos vel) accum0 =
        Some (fold (\<lambda>k a. if k = int i then a else neighborStep pos vel i (nat k) a) [0 .. N - 1] accum0)"
  proof (rule forM_pure)
    fix k a assume "k \<in> set [0 .. N - 1]"
    then have k: "0 \<le> k" "k < N" by auto
    show "computeVelocityChange_body (int i) pos vel k a =
            Some (if k = int i then a else neighborStep pos vel i (nat k) a)"
      using k assms neighborRules_Some[of "int i" pos k vel a]
      by (simp add: computeVelocityChange_body_def)
  qed
  then show ?thesis
    using assms
    by (simp add: computeVelocityChange_def upto_0_map fold_map_filter_int bruteAccum_def rd_def)
qed

lemma kernUpdateVelocityBruteForce_launch:
  assumes "0 \<le> N" "N \<le> int (length vel2)" "N \<le> int (length pos)" "N \<le> int (length vel1)"
  shows "launch N (kernUpdateVelocityBruteForce N pos vel1) vel2 =
           Some (map (bruteVel (nat N) pos vel1) [0 ..< nat N] @ drop (nat N) vel2)"
proof (rule launch_map[OF assms(1,2)])
  fix i and s :: "vec3 list" assume i: "0 \<le> i" "i < N" and "length s = length vel2"
  then show "kernUpdateVelocityBruteForce N pos vel1 i s = Some (s[nat i := bruteVel (nat N) pos vel1 (nat i)])"
    using assms computeVelocityChange_Some[OF assms(1,3,4), of "nat i"]
    by (simp add: kernUpdateVelocityBruteForce_def rd_def wr_def bruteVel_def)
next
  fix i and s :: "vec3 list" assume "N \<le> i"
  then show "kernUpdateVelocityBruteForce N pos vel1 i s = Some s"
    by (simp add: kernUpdateVelocityBruteForce_def)
qed

lemma pair_nth: "length xs = Suc (Suc 0) \<Longrightarrow> xs = [xs ! 0, xs ! 1]"
  by (cases xs; cases "tl xs") auto

lemma sqrt_25: "sqrt 25 = 5"
  by (rule real_sqrt_unique) simp_all

section \<open>Data reorderer\<close>

lemma kernReorderData_launch:
  assumes N: "0 \<le> N" "N \<le> int (length pos_dst)" "N \<le> int (length vel_dst)" "N \<le> int (length indices)"
    and idx: "\<forall>k < nat N. 0 \<le> indices ! k \<and> indices ! k < int (length pos_src) \<and>
                           indices ! k < int (length vel_src)"
  shows "launch N (kernReorderData N pos_src vel_src indices) (pos_dst, vel_dst) =
           Some (map (\<lambda>k. pos_src ! nat (indices ! k)) [0 ..< nat N] @ drop (nat N) pos_dst,
                 map (\<lambda>k. vel_src ! nat (indices ! k)) [0 ..< nat N] @ drop (nat N) vel_dst)"
proof (rule launch_map2[OF N(1,2,3)])
  fix i and a :: "'a list" and b :: "'b list"
  assume i: "0 \<le> i" "i < N" and len: "length a = length pos_dst" "length b = length vel_dst"
  have "nat i < nat N" using i by simp
  with idx have "0 \<le> indices ! nat i \<and> indices ! nat i < int (length pos_src) \<and>
                 indices ! nat i < int (length vel_src)" by blast
  then show "kernReorderData N pos_src vel_src indices i (a, b) =
          Some (a[nat i := pos_src ! nat (indices ! nat i)], b[nat i := vel_src ! nat (indices ! nat i)])"
    using i len N by (simp add: kernReorderData_def rd_def wr_def)
next
  fix i and s :: "'a list \<times> 'b list" assume "N \<le> i"
  then show "kernReorderData N pos_src vel_src indices i s = Some s"
    by (simp add: kernReorderData_def)
qed

text \<open>
  Claim C4. For index entries that point inside the source buffers (as the entries of a
  permutation of \<open>0 .. N - 1\<close> do), one launch of \<^verbatim>\<open>kernReorderData\<close> returns and leaves in
  slot \<open>k\<close> of both destination buffers exactly the source element at \<open>indices[k]\<close>, for
  every \<open>k < N\<close>; the slots from \<open>N\<close> on are untouched. The kernel is stated for any element
  type, so the values are moved, not computed.
\<close>

theorem kernReorderData_exact:
  assumes "0 \<le> N" "N \<le> int (length pos_dst)" "N \<le> int (length vel_dst)"
    and "N \<le> int (length indices)"
    and "\<forall>k < nat N. 0 \<le> indices ! k \<and> indices ! k < int (length pos_src) \<and>
                       indices ! k < int (length vel_src)"
  shows "\<exists>pos_dst' vel_dst'.
           launch N (kernReorderData N pos_src vel_src indices) (pos_dst, vel_dst) =
             Some (pos_dst', vel_dst') \<and>
           length pos_dst' = length pos_dst \<and> length vel_dst' = length vel_dst \<and>
           (\<forall>k < nat N. pos_dst' ! k = pos_src ! nat (indices ! k) \<and>
                         vel_dst' ! k = vel_src ! nat (indices ! k)) \<and>
           drop (nat N) pos_dst' = drop (nat N) pos_dst \<and>
           drop (nat N) vel_dst' = drop (nat N) vel_dst"
proof -
  let ?p = "map (\<lambda>k. pos_src ! nat (indices ! k)) [0 ..< nat N] @ drop (nat N) pos_dst"
  let ?v = "map (\<lambda>k. vel_src ! nat (indices ! k)) [0 ..< nat N] @ drop (nat N) vel_dst"
  have 1: "launch N (kernReorderData N pos_src vel_src indices) (pos_dst, vel_dst) = Some (?p, ?v)"
    by (rule kernReorderData_launch[OF assms])
  have 2: "length ?p = length pos_dst" "length ?v = length vel_dst" using assms by simp_all
  have 3: "?p ! k = pos_src ! nat (indices ! k) \<and> ?v ! k = vel_src ! nat (indices ! k)"
    if "k < nat N" for k using that by (simp add: nth_append)
  have 4: "drop (nat N) ?p = drop (nat N) pos_dst" "drop (nat N) ?v = drop (nat N) vel_dst"
    by simp_all
  show ?thesis using 1 2 3 4 by blast
qed

text \<open>Three agents reordered by the index array \<open>[2, 0, 1]\<close>.\<close>

theorem kernReorderData_exact_witness:
  "launch 3 (kernReorderData 3 [Vec3 1 0 0, Vec3 2 0 0, Vec3 3 0 0] [Vec3 0 1 0, Vec3 0 2 0, Vec3 0 3 0]
       [2, 0, 1])
     ([vzero, vzero, vzero, Vec3 9 9 9], [vzero, vzero, vzero, Vec3 8 8 8]) =
   Some ([Vec3 3 0 0, Vec3 1 0 0, Vec3 2 0 0, Vec3 9 9 9], [Vec3 0 3 0, Vec3 0 1 0, Vec3 0 2 0, Vec3 8 8 8])"
proof -
  let ?ps = "[Vec3 1 0 0, Vec3 2 0 0, Vec3 3 0 0]" and ?vs = "[Vec3 0 1 0, Vec3 0 2 0, Vec3 0 3 0]"
  let ?pd = "[vzero, vzero, vzero, Vec3 9 9 9]" and ?vd = "[vzero, vzero, vzero, Vec3 8 8 8]"
  have idx: "\<forall>k < nat 3. 0 \<le> [2, 0, 1 :: int] ! k \<and> [2, 0, 1 :: int] ! k < int (length ?ps) \<and>
               [2, 0, 1 :: int] ! k < int (length ?vs)"
    by (simp add: nth_Cons' less_Suc_eq numeral_3_eq_3)
  obtain p v where l: "launch 3 (kernReorderData 3 ?ps ?vs [2, 0, 1]) (?pd, ?vd) = Some (p, v)"
    and n: "length p = length ?pd" "length v = length ?vd"
    and e: "\<forall>k < nat 3. p ! k = ?ps ! nat ([2, 0, 1] ! k) \<and> v ! k = ?vs ! nat ([2, 0, 1] ! k)"
    and d: "drop (nat 3) p = drop (nat 3) ?pd" "drop (nat 3) v = drop (nat 3) ?vd"
    using kernReorderData_exact[of 3 ?pd ?vd "[2, 0, 1]" ?ps ?vs, OF _ _ _ _ idx]
    by auto
  have e0: "p ! 0 = Vec3 3 0 0" "v ! 0 = Vec3 0 3 0" using e by simp_all
  have e1: "p ! 1 = Vec3 1 0 0" "v ! 1 = Vec3 0 1 0" using e by simp_all
  have e2: "p ! 2 = Vec3 2 0 0" "v ! 2 = Vec3 0 2 0" using e by (simp_all add: numeral_2_eq_2)
  have p: "p = take 3 p @ drop 3 p" and v: "v = take 3 v @ drop 3 v" by simp_all
  have tp: "take 3 p = [p ! 0, p ! 1, p ! 2]" using n(1)
    by (simp add: take_Suc_conv_app_nth numeral_3_eq_3 numeral_2_eq_2)
  have tv: "take 3 v = [v ! 0, v ! 1, v ! 2]" using n(2)
    by (simp add: take_Suc_conv_app_nth numeral_3_eq_3 numeral_2_eq_2)
  have "p = [Vec3 3 0 0, Vec3 1 0 0, Vec3 2 0 0, Vec3 9 9 9]" using d(1) e0 e1 e2 tp by (subst p) simp
  moreover have "v = [Vec3 0 3 0, Vec3 0 1 0, Vec3 0 2 0, Vec3 8 8 8]" using d(2) e0 e1 e2 tv by (subst v) simp
  ultimately show ?thesis using l by simp
qed

lemma clamp_f2i_floor:
  "0 < R \<Longrightarrow> max 0 (min (f2i f) (R - 1)) = max 0 (min \<lfloor>f\<rfloor> (R - 1))"
  unfolding f2i_def by (auto simp: max_def min_def) linarith+

lemma gridIndex3Dto1D_bounds:
  assumes "0 \<le> x" "x < R" "0 \<le> y" "y < R" "0 \<le> z" "z < R"
  shows "0 \<le> gridIndex3Dto1D x y z R" "gridIndex3Dto1D x y z R < R * R * R"
proof -
  have R: "0 < R" using assms by linarith
  show "0 \<le> gridIndex3Dto1D x y z R"
    using assms R by (simp add: gridIndex3Dto1D_def)
  have "x + y * R \<le> (R - 1) + (R - 1) * R"
    using assms R by (intro add_mono mult_right_mono) auto
  then have 1: "x + y * R < R * R" by (simp add: algebra_simps)
  have "z * R * R \<le> (R - 1) * R * R"
    using assms R by (intro mult_right_mono) auto
  then have "x + y * R + z * R * R < R * R + (R - 1) * R * R" using 1 by linarith
  then show "gridIndex3Dto1D x y z R < R * R * R"
    by (simp add: gridIndex3Dto1D_def algebra_simps)
qed

section \<open>Grid indexer and cell skipping\<close>

lemma kernComputeIndices_launch:
  assumes N: "0 \<le> N" "N \<le> int (length indices)" "N \<le> int (length gridIndices)"
    and pos: "N \<le> int (length pos)"
  shows "launch N (kernComputeIndices N R gridMin icw pos) (indices, gridIndices) =
           Some (map int [0 ..< nat N] @ drop (nat N) indices,
                 map (\<lambda>i. boidGridIndex R gridMin icw (pos ! i)) [0 ..< nat N]
                 @ drop (nat N) gridIndices)"
proof (rule launch_map2[OF N])
  fix i and a b :: "int list"
  assume i: "0 \<le> i" "i < N" and len: "length a = length indices" "length b = length gridIndices"
  show "kernComputeIndices N R gridMin icw pos i (a, b) =
          Some (a[nat i := int (nat i)], b[nat i := boidGridIndex R gridMin icw (pos ! nat i)])"
    using i len N pos by (simp add: kernComputeIndices_def rd_def wr_def)
next
  fix i and s :: "int list \<times> int list" assume "N \<le> i"
  then show "kernComputeIndices N R gridMin icw pos i s = Some s"
    by (simp add: kernComputeIndices_def)
qed

lemma boidGridIndex_floor:
  assumes "0 < R"
  shows "boidGridIndex R gridMin icw p =
           gridIndex3Dto1D (max 0 (min \<lfloor>(vx p - vx gridMin) * icw\<rfloor> (R - 1)))
                           (max 0 (min \<lfloor>(vy p - vy gridMin) * icw\<rfloor> (R - 1)))
                           (max 0 (min \<lfloor>(vz p - vz gridMin) * icw\<rfloor> (R - 1))) R"
  by (cases p; cases gridMin) (simp add: boidGridIndex_def Let_def clamp_f2i_floor[OF assms])

lemma boidGridIndex_bounds:
  assumes "0 < R"
  shows "0 \<le> boidGridIndex R gridMin icw p" "boidGridIndex R gridMin icw p < R * R * R"
  unfolding boidGridIndex_floor[OF assms]
  using assms by (auto intro!: gridIndex3Dto1D_bounds)

text \<open>
  Claim C7. One launch of \<^verbatim>\<open>kernComputeIndices\<close> over \<open>N\<close> agents on a grid of side
  \<open>R > 0\<close> returns with \<open>indices[i] = i\<close> and with \<open>gridIndices[i]\<close> the flattening
  \<open>x + y * R + z * R * R\<close> of the per-axis values
  \<open>floor((pos[i] - gridMin) * inverseCellWidth)\<close> clamped into \<open>[0, R - 1]\<close>; every label is
  in \<open>[0, R * R * R)\<close>. (The source truncates instead of taking the floor; after the clamp
  the two agree. All intermediate values are below \<open>R * R * R\<close>, so an \<^verbatim>\<open>int\<close> that holds
  \<^verbatim>\<open>gridCellCount\<close> does not overflow.)
\<close>

theorem kernComputeIndices_labels:
  assumes "0 \<le> N" "N \<le> int (length indices)" "N \<le> int (length gridIndices)"
    and "N \<le> int (length pos)" and "0 < R"
  shows "\<exists>indices' gridIndices'.
           launch N (kernComputeIndices N R gridMin icw pos) (indices, gridIndices) =
             Some (indices', gridIndices') \<and>
           length indices' = length indices \<and> length gridIndices' = length gridIndices \<and>
           (\<forall>i < nat N.
              indices' ! i = int i \<and>
              gridIndices' ! i =
                gridIndex3Dto1D
                  (max 0 (min \<lfloor>(vx (pos ! i) - vx gridMin) * icw\<rfloor> (R - 1)))
                  (max 0 (min \<lfloor>(vy (pos ! i) - vy gridMin) * icw\<rfloor> (R - 1)))
                  (max 0 (min \<lfloor>(vz (pos ! i) - vz gridMin) * icw\<rfloor> (R - 1))) R \<and>
              0 \<le> gridIndices' ! i \<and> gridIndices' ! i < R * R * R) \<and>
           (\<forall>x y z. gridIndex3Dto1D x y z R = x + y * R + z * R * R)"
proof -
  let ?a = "map int [0 ..< nat N] @ drop (nat N) indices"
  let ?b = "map (\<lambda>i. boidGridIndex R gridMin icw (pos ! i)) [0 ..< nat N] @ drop (nat N) gridIndices"
  have 1: "launch N (kernComputeIndices N R gridMin icw pos) (indices, gridIndices) = Some (?a, ?b)"
    by (rule kernComputeIndices_launch[OF assms(1-4)])
  have 2: "length ?a = length indices" "length ?b = length gridIndices" using assms by simp_all
  have 3: "?a ! i = int i" "?b ! i = boidGridIndex R gridMin icw (pos ! i)" if "i < nat N" for i
    using that by (simp_all add: nth_append)
  have 4: "\<forall>x y z. gridIndex3Dto1D x y z R = x + y * R + z * R * R"
    by (simp add: gridIndex3Dto1D_def)
  have 5: "\<forall>i < nat N.
              ?a ! i = int i \<and>
              ?b ! i =
                gridIndex3Dto1D
                  (max 0 (min \<lfloor>(vx (pos ! i) - vx gridMin) * icw\<rfloor> (R - 1)))
                  (max 0 (min \<lfloor>(vy (pos ! i) - vy gridMin) * icw\<rfloor> (R - 1)))
                  (max 0 (min \<lfloor>(vz (pos ! i) - vz gridMin) * icw\<rfloor> (R - 1))) R \<and>
              0 \<le> ?b ! i \<and> ?b ! i < R * R * R"
  proof (intro allI impI)
    fix i assume i: "i < nat N"
    show "?a ! i = int i \<and>
              ?b ! i =
                gridIndex3Dto1D
                  (max 0 (min \<lfloor>(vx (pos ! i) - vx gridMin) * icw\<rfloor> (R - 1)))
                  (max 0 (min \<lfloor>(vy (pos ! i) - vy gridMin) * icw\<rfloor> (R - 1)))
                  (max 0 (min \<lfloor>(vz (pos ! i) - vz gridMin) * icw\<rfloor> (R - 1))) R \<and>
              0 \<le> ?b ! i \<and> ?b ! i < R * R * R"
      unfolding 3[OF i]
      using boidGridIndex_floor[OF assms(5), of gridMin icw "pos ! i"]
        boidGridIndex_bounds[OF assms(5), of gridMin icw "pos ! i"] by simp
  qed
  show ?thesis
    using 1 2 4 5 by blast
qed

text \<open>
  Claim C8. On a cell whose range entry is \<open>start = -1\<close>, \<open>end = -1\<close> or \<open>start > end\<close>,
  \<^verbatim>\<open>computeVelScattered\<close> and \<^verbatim>\<open>computeVelCoherent\<close> return the accumulators unchanged
  whatever the index, position and velocity buffers are, also when these are empty, where
  any read of them would be undefined: no range entry is visited and none of these buffers
  is indexed.
\<close>

theorem empty_cell_skipped:
  assumes "rd gridCellStartIndices gridIndex = Some start"
    and "rd gridCellEndIndices gridIndex = Some end'"
    and "start = - 1 \<or> end' = - 1 \<or> start > end'"
  shows "computeVelScattered iSelf gridIndex gridCellStartIndices gridCellEndIndices
           particleArrayIndices pos vel a = Some a \<and>
         computeVelCoherent iSelf gridIndex gridCellStartIndices gridCellEndIndices pos vel a = Some a \<and>
         computeVelScattered iSelf gridIndex gridCellStartIndices gridCellEndIndices [] [] [] a = Some a \<and>
         computeVelCoherent iSelf gridIndex gridCellStartIndices gridCellEndIndices [] [] a = Some a"
  using assms by (auto simp: computeVelScattered_def computeVelCoherent_def)

lemma scattered_body_skip:
  assumes "rd particleArrayIndices i = Some boid_index" "boid_index < 0 \<or> boid_index = iSelf"
  shows "computeVelScattered_body iSelf particleArrayIndices pos vel i a = Some a"
  using assms by (simp add: computeVelScattered_def computeVelScattered_body_def)

lemma forM_filter_skip:
  assumes "\<And>k a. k \<in> set ks \<Longrightarrow> skip k \<Longrightarrow> body k a = Some a"
  shows "forM ks body a = forM (filter (\<lambda>k. \<not> skip k) ks) body a"
  using assms by (induction ks arbitrary: a) (auto split: bind_splits)

text \<open>
  The grid of \<^verbatim>\<open>initSimulation\<close> (side 22, corner \<open>-110\<close>, inverse width \<open>1/10\<close>): the
  agent at the origin is in cell \<open>(11, 11, 11)\<close>, an agent outside the grid volume is clamped
  to cell \<open>(0, 21, 21)\<close>.
\<close>

theorem kernComputeIndices_labels_witness:
  "launch 2 (kernComputeIndices 2 22 (Vec3 (- 110) (- 110) (- 110)) (1 / 10)
       [Vec3 0 0 0, Vec3 (- 200) 105 500]) ([7, 7], [7, 7]) =
   Some ([0, 1], [5577, 10626])"
proof -
  let ?pos = "[Vec3 0 0 0, Vec3 (- 200) 105 500]" and ?gm = "Vec3 (- 110) (- 110) (- 110)"
  have "\<exists>indices' gridIndices'.
           launch 2 (kernComputeIndices 2 22 ?gm (1 / 10) ?pos) ([7, 7], [7, 7]) =
             Some (indices', gridIndices') \<and>
           length indices' = length [7, 7 :: int] \<and> length gridIndices' = length [7, 7 :: int] \<and>
           (\<forall>i < nat 2.
              indices' ! i = int i \<and>
              gridIndices' ! i =
                gridIndex3Dto1D
                  (max 0 (min \<lfloor>(vx (?pos ! i) - vx ?gm) * (1 / 10)\<rfloor> (22 - 1)))
                  (max 0 (min \<lfloor>(vy (?pos ! i) - vy ?gm) * (1 / 10)\<rfloor> (22 - 1)))
                  (max 0 (min \<lfloor>(vz (?pos ! i) - vz ?gm) * (1 / 10)\<rfloor> (22 - 1))) 22 \<and>
              0 \<le> gridIndices' ! i \<and> gridIndices' ! i < 22 * 22 * 22) \<and>
           (\<forall>x y z. gridIndex3Dto1D x y z 22 = x + y * 22 + z * 22 * 22)"
    by (rule kernComputeIndices_labels) simp_all
  then obtain a b where l: "launch 2 (kernComputeIndices 2 22 ?gm (1 / 10) ?pos) ([7, 7], [7, 7]) = Some (a, b)"
    and n: "length a = length [7, 7 :: int]" "length b = length [7, 7 :: int]"
    and e: "\<forall>i < nat 2.
              a ! i = int i \<and>
              b ! i =
                gridIndex3Dto1D
                  (max 0 (min \<lfloor>(vx (?pos ! i) - vx ?gm) * (1 / 10)\<rfloor> (22 - 1)))
                  (max 0 (min \<lfloor>(vy (?pos ! i) - vy ?gm) * (1 / 10)\<rfloor> (22 - 1)))
                  (max 0 (min \<lfloor>(vz (?pos ! i) - vz ?gm) * (1 / 10)\<rfloor> (22 - 1))) 22 \<and>
              0 \<le> b ! i \<and> b ! i < 22 * 22 * 22"
    by blast
  have "a ! 0 = 0" "b ! 0 = 5577" using e[rule_format, of 0] by (simp_all add: gridIndex3Dto1D_def)
  moreover have "a ! 1 = 1" "b ! 1 = 10626"
    using e[rule_format, of 1] by (simp_all add: gridIndex3Dto1D_def)
  moreover have "a = [a ! 0, a ! 1]" "b = [b ! 0, b ! 1]" using n by (intro pair_nth; simp)+
  ultimately show ?thesis using l by simp
qed

text \<open>Cell 1 of a two-cell table is empty.\<close>

theorem empty_cell_skipped_witness:
  "computeVelScattered 0 1 [0, - 1] [0, - 1] [0] [Vec3 0 0 0] [Vec3 1 0 0] accum0 = Some accum0 \<and>
   computeVelCoherent 0 1 [0, - 1] [0, - 1] [Vec3 0 0 0] [Vec3 1 0 0] accum0 = Some accum0"
proof -
  have 1: "rd [0, - 1] 1 = Some (- 1 :: int)" by (simp add: rd_def)
  show ?thesis
    using empty_cell_skipped[OF 1 1, of 0 "[0]" "[Vec3 0 0 0]" "[Vec3 1 0 0]" accum0] by simp
qed

text \<open>
  Claim C10. In the loop of \<^verbatim>\<open>computeVelScattered\<close> over range positions \<open>ks\<close> inside the
  index buffer, the entries whose stored agent index is negative or is \<open>iSelf\<close> can be
  dropped from the loop without changing its result. On an entry with a negative index the
  body returns the accumulators unchanged, also with empty position and velocity buffers
  (so it reads neither), and does the same when the entry is replaced by \<open>iSelf\<close>.
\<close>

theorem negative_entry_skipped:
  assumes "\<forall>k \<in> set ks. 0 \<le> k \<and> k < int (length particleArrayIndices)"
  shows "forM ks (computeVelScattered_body iSelf particleArrayIndices pos vel) a =
           forM (filter (\<lambda>k. \<not> (particleArrayIndices ! nat k < 0 \<or>
                                  particleArrayIndices ! nat k = iSelf)) ks)
             (computeVelScattered_body iSelf particleArrayIndices pos vel) a \<and>
         (\<forall>k \<in> set ks. particleArrayIndices ! nat k < 0 \<longrightarrow>
            computeVelScattered_body iSelf particleArrayIndices pos vel k a = Some a \<and>
            computeVelScattered_body iSelf particleArrayIndices [] [] k a = Some a \<and>
            computeVelScattered_body iSelf (particleArrayIndices[nat k := iSelf]) pos vel k a = Some a)"
proof (intro conjI ballI impI)
  show "forM ks (computeVelScattered_body iSelf particleArrayIndices pos vel) a =
           forM (filter (\<lambda>k. \<not> (particleArrayIndices ! nat k < 0 \<or>
                                  particleArrayIndices ! nat k = iSelf)) ks)
             (computeVelScattered_body iSelf particleArrayIndices pos vel) a"
  proof (rule forM_filter_skip)
    fix k a assume "k \<in> set ks"
      and "particleArrayIndices ! nat k < 0 \<or> particleArrayIndices ! nat k = iSelf"
    then show "computeVelScattered_body iSelf particleArrayIndices pos vel k a = Some a"
      using assms by (intro scattered_body_skip[where boid_index = "particleArrayIndices ! nat k"])
        (auto simp: rd_def)
  qed
next
  fix k assume k: "k \<in> set ks" "particleArrayIndices ! nat k < 0"
  then have r: "rd particleArrayIndices k = Some (particleArrayIndices ! nat k)"
    using assms by (simp add: rd_def)
  show "computeVelScattered_body iSelf particleArrayIndices pos vel k a = Some a"
    by (rule scattered_body_skip[OF r]) (simp add: k)
  show "computeVelScattered_body iSelf particleArrayIndices [] [] k a = Some a"
    by (rule scattered_body_skip[OF r]) (simp add: k)
  have "0 \<le> k" "nat k < length particleArrayIndices" using assms k by auto
  then have "rd (particleArrayIndices[nat k := iSelf]) k = Some iSelf"
    by (simp add: rd_def)
  then show "computeVelScattered_body iSelf (particleArrayIndices[nat k := iSelf]) pos vel k a = Some a"
    by (rule scattered_body_skip) simp
qed

text \<open>A range of three entries \<open>[-1, 1, 0]\<close> seen from agent 0: only agent 1 is counted.\<close>

theorem negative_entry_skipped_witness:
  "forM [0, 1, 2] (computeVelScattered_body 0 [- 1, 1, 0] [Vec3 0 0 0, Vec3 1 0 0]
       [Vec3 0 0 0, Vec3 0 2 0]) accum0 =
     Some \<lparr>perceived_center = Vec3 1 0 0, c_vec = Vec3 (- 1) 0 0, perceived_velocity = Vec3 0 2 0,
           rule1_neighbor_count = 1, rule3_neighbor_count = 1\<rparr> \<and>
   computeVelScattered_body 0 [- 1, 1, 0] [] [] 0 accum0 = Some accum0"
proof -
  have h: "\<forall>k \<in> set [0, 1, 2]. 0 \<le> k \<and> k < int (length [- 1, 1, 0 :: int])" by simp
  have d: "vdistance (Vec3 0 0 0) (Vec3 1 0 0) = 1" by (simp add: vdistance_def vlength_def)
  have "forM [1] (computeVelScattered_body 0 [- 1, 1, 0] [Vec3 0 0 0, Vec3 1 0 0]
       [Vec3 0 0 0, Vec3 0 2 0]) accum0 =
     Some \<lparr>perceived_center = Vec3 1 0 0, c_vec = Vec3 (- 1) 0 0, perceived_velocity = Vec3 0 2 0,
           rule1_neighbor_count = 1, rule3_neighbor_count = 1\<rparr>"
    by (simp add: computeVelScattered_body_def neighborRules_def rd_def rules12_def rule3_def d
        accum0_def vzero_def Let_def rule1Distance_def rule2Distance_def rule3Distance_def)
  moreover have "filter (\<lambda>k. \<not> ([- 1, 1, 0 :: int] ! nat k < 0 \<or> [- 1, 1, 0 :: int] ! nat k = 0))
      [0, 1, 2] = [1]" by simp
  moreover have "computeVelScattered_body 0 [- 1, 1, 0] [] [] 0 accum0 = Some accum0"
    using negative_entry_skipped[OF h, of 0 "[Vec3 0 0 0, Vec3 1 0 0]" "[Vec3 0 0 0, Vec3 0 2 0]" accum0,
      THEN conjunct2, rule_format, of 0] by simp
  ultimately show ?thesis
    using negative_entry_skipped[OF h, of 0 "[Vec3 0 0 0, Vec3 1 0 0]" "[Vec3 0 0 0, Vec3 0 2 0]" accum0,
      THEN conjunct1]
    by (simp only:)
qed

section \<open>Initialisation\<close>

lemma f32_grid_values:
  "f32 10 = 10" "f32 110 = 110" "f32 (- 110) = - 110" "f32 (1 / 10) = 13421773 / 134217728"
  by code_simp+

lemma initGlobals_cellWidth:
  "gridCellWidth (initGlobals m gm0 N) = (if SINGLE_DISTANCE_MODE m then 5 else 10)"
  by (simp add: initGlobals_def Let_def rule1Distance_def rule2Distance_def rule3Distance_def
      f32_grid_values)

lemma initGlobals_numObjects: "numObjects (initGlobals m gm0 N) = N"
  by (simp add: initGlobals_def Let_def)

lemma runChecked_first: "cs \<noteq> [] \<Longrightarrow> \<exists>tr. fst (runChecked ok cs) = fst (hd cs) # tr"
  by (cases cs) (auto split: prod.splits)

lemma runChecked_fails: "(snd (runChecked ok cs) \<noteq> None) \<longleftrightarrow> (\<exists>c \<in> set (map fst cs). \<not> ok c)"
  by (induction cs) (auto split: prod.splits)

lemma runChecked_trace_prefix:
  "\<exists>rest. map fst cs = fst (runChecked ok cs) @ rest"
  by (induction cs) (auto split: prod.splits)

lemma runChecked_all_ok: "snd (runChecked ok cs) = None \<Longrightarrow> fst (runChecked ok cs) = map fst cs"
  by (induction cs) (auto split: prod.splits if_splits)

text \<open>
  Claim C9 as stated fails: with \<open>N = 0\<close> and a runtime that reports no error,
  \<^verbatim>\<open>initSimulation\<close> requests all ten allocations and returns with \<open>numObjects = 0\<close>.
\<close>

theorem initSimulation_no_validation_counterexample:
  "initSimulation default_modes rt_always_ok vzero 0 =
     ([CudaMalloc ''dev_pos'' 0, CudaMalloc ''dev_vel1'' 0, CudaMalloc ''dev_vel2'' 0,
       KernelLaunch ''kernGenerateRandomPosArray'' 0,
       CudaMalloc ''dev_particleArrayIndices'' 0, CudaMalloc ''dev_particleGridIndices'' 0,
       CudaMalloc ''dev_gridCellStartIndices'' 42592, CudaMalloc ''dev_gridCellEndIndices'' 42592,
       CudaMalloc ''dev_pos_temp'' 0, CudaMalloc ''dev_vel1_temp'' 0, CudaDeviceSynchronize],
      Inr \<lparr>numObjects = 0, gridCellCount = 10648, gridSideCount = 22, gridCellWidth = 10,
           gridInverseCellWidth = 13421773 / 134217728,
           gridMinimum = Vec3 (- 110) (- 110) (- 110)\<rparr>)"
  by (simp add: initSimulation_def initGlobals_def initCalls_def default_modes_def rt_always_ok_def
      Let_def rule1Distance_def rule2Distance_def rule3Distance_def scene_scale_def f2i_def
      f32_grid_values
      vzero_def size_t_bytes_def sizeof_vec3_def sizeof_int_def fullBlocksPerGrid_def cdiv_def
      blockSize_def)

text \<open>
  Claim C9, amended. \<^verbatim>\<open>initSimulation\<close> does not validate its configuration. For every
  \<open>N\<close> and every runtime its first call allocates \<^verbatim>\<open>dev_pos\<close> with \<open>N * sizeof(glm::vec3)\<close>
  bytes (computed in \<^verbatim>\<open>size_t\<close>); the calls made are a prefix of the fixed list of calls; it
  stops exactly when the runtime reports an error after one of the checked calls; and when
  it returns, \<open>numObjects = N\<close> and the cell width is the constant 10 (5 under
  \<^verbatim>\<open>SINGLE_DISTANCE_MODE\<close>), so a cell width \<open>\<le> 0\<close> does not occur.
\<close>

theorem initSimulation_no_validation:
  "(\<exists>tr. fst (initSimulation m ok gridMinimum0 N) =
           CudaMalloc ''dev_pos'' (size_t_bytes N sizeof_vec3) # tr) \<and>
   (\<exists>rest. map fst (initCalls (initGlobals m gridMinimum0 N)) @ [CudaDeviceSynchronize] =
            fst (initSimulation m ok gridMinimum0 N) @ rest) \<and>
   (isl (snd (initSimulation m ok gridMinimum0 N)) \<longleftrightarrow>
      (\<exists>c \<in> set (map fst (initCalls (initGlobals m gridMinimum0 N))). \<not> ok c)) \<and>
   (\<forall>g. snd (initSimulation m ok gridMinimum0 N) = Inr g \<longrightarrow>
      numObjects g = N \<and> gridCellWidth g = (if SINGLE_DISTANCE_MODE m then 5 else 10))"
proof (intro conjI)
  let ?g = "initGlobals m gridMinimum0 N"
  obtain tr r where rc: "runChecked ok (initCalls ?g) = (tr, r)" by fastforce
  have ne: "initCalls ?g \<noteq> []" by (simp add: initCalls_def Let_def)
  have hd: "fst (hd (initCalls ?g)) = CudaMalloc ''dev_pos'' (size_t_bytes N sizeof_vec3)"
    by (simp add: initCalls_def Let_def initGlobals_numObjects)
  from runChecked_first[OF ne, of ok] hd rc
  obtain tr' where tr: "tr = CudaMalloc ''dev_pos'' (size_t_bytes N sizeof_vec3) # tr'" by auto
  show "\<exists>tr. fst (initSimulation m ok gridMinimum0 N) =
           CudaMalloc ''dev_pos'' (size_t_bytes N sizeof_vec3) # tr"
    using rc tr by (cases r) (simp_all add: initSimulation_def Let_def)
  from runChecked_trace_prefix[of "initCalls ?g" ok] rc
  obtain rest where rest: "map fst (initCalls ?g) = tr @ rest" by auto
  show "\<exists>rest. map fst (initCalls ?g) @ [CudaDeviceSynchronize] =
            fst (initSimulation m ok gridMinimum0 N) @ rest"
  proof (cases r)
    case None
    then have "tr = map fst (initCalls ?g)"
      using runChecked_all_ok[of ok "initCalls ?g"] rc by simp
    then show ?thesis using rc None by (simp add: initSimulation_def Let_def)
  next
    case (Some msg)
    then show ?thesis using rc rest by (simp add: initSimulation_def Let_def)
  qed
  show "isl (snd (initSimulation m ok gridMinimum0 N)) \<longleftrightarrow>
      (\<exists>c \<in> set (map fst (initCalls ?g)). \<not> ok c)"
    using runChecked_fails[of ok "initCalls ?g"] rc
    by (cases r) (simp_all add: initSimulation_def Let_def)
  show "\<forall>g. snd (initSimulation m ok gridMinimum0 N) = Inr g \<longrightarrow>
      numObjects g = N \<and> gridCellWidth g = (if SINGLE_DISTANCE_MODE m then 5 else 10)"
    using rc initGlobals_cellWidth[of m gridMinimum0 N] initGlobals_numObjects[of m gridMinimum0 N]
    by (cases r) (simp_all add: initSimulation_def Let_def)
qed

text \<open>Five agents, no runtime error: the first call allocates 60 bytes.\<close>

theorem initSimulation_no_validation_witness:
  "\<not> isl (snd (initSimulation default_modes rt_always_ok vzero 5)) \<and>
   (\<exists>tr. fst (initSimulation default_modes rt_always_ok vzero 5) = CudaMalloc ''dev_pos'' 60 # tr) \<and>
   numObjects (projr (snd (initSimulation default_modes rt_always_ok vzero 5))) = 5 \<and>
   gridCellWidth (projr (snd (initSimulation default_modes rt_always_ok vzero 5))) = 10"
proof -
  note th = initSimulation_no_validation[of default_modes rt_always_ok vzero 5]
  have 1: "\<not> isl (snd (initSimulation default_modes rt_always_ok vzero 5))"
    using th by (simp add: rt_always_ok_def)
  then obtain g where g: "snd (initSimulation default_modes rt_always_ok vzero 5) = Inr g"
    by (cases "snd (initSimulation default_modes rt_always_ok vzero 5)") auto
  have 2: "numObjects g = 5 \<and> gridCellWidth g = 10"
    using th g by (simp add: default_modes_def)
  have 3: "\<exists>tr. fst (initSimulation default_modes rt_always_ok vzero 5) = CudaMalloc ''dev_pos'' 60 # tr"
    using th by (simp add: size_t_bytes_def sizeof_vec3_def)
  show ?thesis using 1 2 3 g by simp
qed

section \<open>Cell range table\<close>

lemma forM_pure_inv:
  assumes "I a" "\<And>k a. k \<in> set ks \<Longrightarrow> I a \<Longrightarrow> body k a = Some (h k a) \<and> I (h k a)"
  shows "forM ks body a = Some (fold h ks a) \<and> I (fold h ks a)"
  using assms by (induction ks arbitrary: a) auto

text \<open>Scattered writes: when at most one writer targets each slot, the order of the writers
  does not matter.\<close>

lemma scatter_fold_length:
  "length (fold (\<lambda>t st. if W t then st[c t := v t] else st) ts st) = length st"
  by (induction ts arbitrary: st) auto

lemma scatter_fold_nth:
  assumes uniq: "\<And>t t'. t \<in> set ts \<Longrightarrow> t' \<in> set ts \<Longrightarrow> W t \<Longrightarrow> W t' \<Longrightarrow> c t = c t' \<Longrightarrow> v t = v t'"
    and g: "g < length st"
  shows "(\<forall>t \<in> set ts. W t \<and> c t = g \<longrightarrow>
            fold (\<lambda>t st. if W t then st[c t := v t] else st) ts st ! g = v t) \<and>
         ((\<forall>t \<in> set ts. \<not> (W t \<and> c t = g)) \<longrightarrow>
            fold (\<lambda>t st. if W t then st[c t := v t] else st) ts st ! g = st ! g)"
  using assms
proof (induction ts arbitrary: st)
  case Nil
  then show ?case by simp
next
  case (Cons t ts)
  let ?F = "\<lambda>ts st. fold (\<lambda>t st. if W t then st[c t := v t] else st) ts st"
  let ?st1 = "if W t then st[c t := v t] else st"
  have len1: "g < length ?st1" using Cons.prems(2) by simp
  have IH: "(\<forall>t' \<in> set ts. W t' \<and> c t' = g \<longrightarrow> ?F ts ?st1 ! g = v t') \<and>
            ((\<forall>t' \<in> set ts. \<not> (W t' \<and> c t' = g)) \<longrightarrow> ?F ts ?st1 ! g = ?st1 ! g)"
  proof (rule Cons.IH[OF _ len1])
    fix a b assume "a \<in> set ts" "b \<in> set ts" "W a" "W b" "c a = c b"
    then show "v a = v b" using Cons.prems(1)[of a b] by simp
  qed
  have F: "?F (t # ts) st = ?F ts ?st1" by simp
  show ?case
  proof (intro conjI ballI impI)
    fix u assume u: "u \<in> set (t # ts)" "W u \<and> c u = g"
    show "?F (t # ts) st ! g = v u"
    proof (cases "\<exists>t' \<in> set ts. W t' \<and> c t' = g")
      case True
      then obtain t' where t': "t' \<in> set ts" "W t'" "c t' = g" by blast
      have "v t' = v u" using Cons.prems(1)[of t' u] t' u by auto
      moreover have "?F ts ?st1 ! g = v t'" using IH t' by blast
      ultimately show ?thesis unfolding F by simp
    next
      case False
      then have "u = t" using u by auto
      moreover have "?F ts ?st1 ! g = ?st1 ! g" using IH False by blast
      ultimately show ?thesis using u Cons.prems(2) unfolding F by simp
    qed
  next
    assume no: "\<forall>u \<in> set (t # ts). \<not> (W u \<and> c u = g)"
    then have "?F ts ?st1 ! g = ?st1 ! g" using IH by simp
    moreover have "?st1 ! g = st ! g" using no by auto
    ultimately show "?F (t # ts) st ! g = st ! g" unfolding F by simp
  qed
qed

lemma kernIdentifyCellStartEnd_thread:
  assumes N: "N = int (length keys)"
    and keys: "\<forall>k < length keys. 0 \<le> keys ! k \<and> keys ! k < int C"
    and len: "length st = C" "length en = C"
    and t: "0 \<le> t"
  shows "kernIdentifyCellStartEnd N keys t (st, en) = Some (startStep keys t st, endStep keys t en)"
proof (cases "t < N")
  case False
  then show ?thesis using N by (simp add: kernIdentifyCellStartEnd_def startStep_def endStep_def)
next
  case True
  then have tn: "nat t < length keys" using N t by simp
  have k: "0 \<le> keys ! nat t" "keys ! nat t < int C" using keys tn by auto
  have r0: "rd keys t = Some (keys ! nat t)" using t True N by (simp add: rd_def)
  have r1: "rd keys (t - 1) = Some (keys ! (nat t - 1))" if "t \<noteq> 0"
    using that t True N by (simp add: rd_def nat_diff_distrib)
  have r2: "rd keys (t + 1) = Some (keys ! Suc (nat t))" if "t \<noteq> N - 1"
    using that t True N by (simp add: rd_def nat_add_distrib)
  have s: "(if t = 0 then Some True
            else do { p \<leftarrow> rd keys (t - 1); Some (keys ! nat t \<noteq> p) }) =
           Some (isCellStart keys (nat t))"
  proof (cases "t = 0")
    case True then show ?thesis by (simp add: isCellStart_def)
  next
    case False
    then have "nat t \<noteq> 0" using t by simp
    then show ?thesis using False r1 by (auto simp: isCellStart_def)
  qed
  have sn: "Suc (nat t) = length keys \<longleftrightarrow> t = N - 1" using t N True by linarith
  have e: "(if t = N - 1 then Some True
            else do { n \<leftarrow> rd keys (t + 1); Some (keys ! nat t \<noteq> n) }) =
           Some (isCellEnd keys (nat t))"
  proof (cases "t = N - 1")
    case True then show ?thesis using sn by (simp add: isCellEnd_def)
  next
    case False
    then show ?thesis using sn r2 by (auto simp: isCellEnd_def)
  qed
  have ws: "wr st (keys ! nat t) t = Some (st[nat (keys ! nat t) := t])"
    using k len by (simp add: wr_def)
  have we: "wr en (keys ! nat t) t = Some (en[nat (keys ! nat t) := t])"
    using k len by (simp add: wr_def)
  have "kernIdentifyCellStartEnd N keys t (st, en) =
          do {
            isStart \<leftarrow> Some (isCellStart keys (nat t));
            starts \<leftarrow> (if isStart then wr st (keys ! nat t) t else Some st);
            isEnd \<leftarrow> Some (isCellEnd keys (nat t));
            ends \<leftarrow> (if isEnd then wr en (keys ! nat t) t else Some en);
            Some (starts, ends)
          }"
    using True by (simp add: kernIdentifyCellStartEnd_def r0 s e)
  also have "\<dots> = Some (startStep keys t st, endStep keys t en)"
    using True N ws we by (simp add: startStep_def endStep_def)
  finally show ?thesis .
qed

lemma startStep_length: "length (startStep keys t st) = length st"
  by (simp add: startStep_def)

lemma endStep_length: "length (endStep keys t en) = length en"
  by (simp add: endStep_def)

lemma fold_pair:
  "fold (\<lambda>t (a, b). (f t a, g t b)) ts (a, b) = (fold f ts a, fold g ts b)"
  by (induction ts arbitrary: a b) auto

lemma kernIdentifyCellStartEnd_forM:
  assumes N: "N = int (length keys)"
    and keys: "\<forall>k < length keys. 0 \<le> keys ! k \<and> keys ! k < int C"
    and len: "length st = C" "length en = C"
    and ts: "\<forall>t \<in> set ts. 0 \<le> t"
  shows "forM ts (kernIdentifyCellStartEnd N keys) (st, en) =
           Some (fold (startStep keys) ts st, fold (endStep keys) ts en)"
proof -
  let ?h = "\<lambda>t (a, b). (startStep keys t a, endStep keys t b)"
  let ?I = "\<lambda>(a, b). length a = C \<and> length b = C"
  have "forM ts (kernIdentifyCellStartEnd N keys) (st, en) = Some (fold ?h ts (st, en)) \<and>
        ?I (fold ?h ts (st, en))"
  proof (rule forM_pure_inv)
    show "?I (st, en)" using len by simp
    fix k and a :: "int list \<times> int list" assume k: "k \<in> set ts" and I: "?I a"
    obtain x y where a: "a = (x, y)" by (cases a)
    show "kernIdentifyCellStartEnd N keys k a = Some (?h k a) \<and> ?I (?h k a)"
      using kernIdentifyCellStartEnd_thread[OF N keys, of x y k] I ts k
      by (simp add: a startStep_length endStep_length)
  qed
  then show ?thesis by (simp add: fold_pair)
qed

text \<open>Sorted keys: each key has one start position and one end position.\<close>

lemma start_unique:
  assumes "sorted keys" "t < length keys" "t' < length keys"
    and "isCellStart keys t" "isCellStart keys t'" "keys ! t = keys ! t'"
  shows "t = t'"
proof -
  have aux: False if lt: "a < b" and b: "b < length keys" and sb: "isCellStart keys b"
    and eq: "keys ! a = keys ! b" for a b
  proof -
    have "keys ! a \<le> keys ! (b - 1)" using assms(1) lt b by (intro sorted_nth_mono) auto
    moreover have "keys ! (b - 1) \<le> keys ! b" using assms(1) b by (intro sorted_nth_mono) auto
    ultimately have "keys ! (b - 1) = keys ! b" using eq by simp
    then show False using sb lt by (simp add: isCellStart_def)
  qed
  show ?thesis
    using aux[of t t'] aux[of t' t] assms by (cases t t' rule: linorder_cases) auto
qed

lemma end_unique:
  assumes "sorted keys" "t < length keys" "t' < length keys"
    and "isCellEnd keys t" "isCellEnd keys t'" "keys ! t = keys ! t'"
  shows "t = t'"
proof -
  have aux: False if lt: "a < b" and b: "b < length keys" and sa: "isCellEnd keys a"
    and eq: "keys ! a = keys ! b" for a b
  proof -
    have "keys ! Suc a \<le> keys ! b" using assms(1) lt b by (intro sorted_nth_mono) auto
    moreover have "keys ! a \<le> keys ! Suc a" using assms(1) lt b by (intro sorted_nth_mono) auto
    ultimately have "keys ! Suc a = keys ! a" using eq by simp
    then show False using sa lt b by (simp add: isCellEnd_def)
  qed
  show ?thesis
    using aux[of t t'] aux[of t' t] assms by (cases t t' rule: linorder_cases) auto
qed

lemma start_exists:
  assumes "sorted keys" "k < length keys"
  shows "\<exists>s \<le> k. isCellStart keys s \<and> keys ! s = keys ! k"
proof -
  define s where "s = (LEAST j. keys ! j = keys ! k)"
  have 1: "keys ! s = keys ! k" unfolding s_def by (rule LeastI[of _ k]) simp
  have 2: "s \<le> k" unfolding s_def by (rule Least_le) simp
  have 3: "isCellStart keys s"
  proof (cases "s = 0")
    case True then show ?thesis by (simp add: isCellStart_def)
  next
    case False
    have "keys ! (s - 1) \<noteq> keys ! k"
    proof
      assume "keys ! (s - 1) = keys ! k"
      then have "s \<le> s - 1" unfolding s_def by (intro Least_le)
      then show False using False by simp
    qed
    then show ?thesis using 1 by (simp add: isCellStart_def)
  qed
  show ?thesis using 1 2 3 by blast
qed

lemma end_exists:
  assumes "sorted keys" "k < length keys"
  shows "\<exists>e \<ge> k. e < length keys \<and> isCellEnd keys e \<and> keys ! e = keys ! k"
proof -
  define P where "P = (\<lambda>j. j < length keys \<and> keys ! j = keys ! k)"
  define e where "e = (GREATEST j. P j)"
  have Pk: "P k" using assms by (simp add: P_def)
  have bound: "P j \<Longrightarrow> j \<le> length keys" for j by (simp add: P_def)
  have 1: "P e" unfolding e_def using GreatestI_nat[of P k "length keys"] Pk bound by blast
  have 2: "k \<le> e" unfolding e_def using Greatest_le_nat[of P k "length keys"] Pk bound by blast
  have 3: "isCellEnd keys e"
  proof (cases "Suc e = length keys")
    case True then show ?thesis by (simp add: isCellEnd_def)
  next
    case False
    then have lt: "Suc e < length keys" using 1 by (simp add: P_def)
    have "keys ! Suc e \<noteq> keys ! e"
    proof
      assume "keys ! Suc e = keys ! e"
      then have PS: "P (Suc e)" using lt 1 by (simp add: P_def)
      have "Suc e \<le> (GREATEST j. P j)"
        using Greatest_le_nat[of P "Suc e" "length keys"] PS bound by blast
      then show False by (simp add: e_def)
    qed
    then show ?thesis by (simp add: isCellEnd_def)
  qed
  show ?thesis using 1 2 3 by (auto simp: P_def)
qed

lemma start_below:
  assumes "sorted keys" "s < length keys" "isCellStart keys s" "j < s"
  shows "keys ! j < keys ! s"
proof -
  have "keys ! j \<le> keys ! (s - 1)" using assms by (intro sorted_nth_mono) auto
  moreover have "keys ! (s - 1) \<le> keys ! s" using assms by (intro sorted_nth_mono) auto
  moreover have "keys ! (s - 1) \<noteq> keys ! s" using assms by (auto simp: isCellStart_def)
  ultimately show ?thesis by linarith
qed

lemma end_above:
  assumes "sorted keys" "e < length keys" "isCellEnd keys e" "e < j" "j < length keys"
  shows "keys ! e < keys ! j"
proof -
  have "keys ! Suc e \<le> keys ! j" using assms by (intro sorted_nth_mono) auto
  moreover have "keys ! e \<le> keys ! Suc e" using assms by (intro sorted_nth_mono) auto
  moreover have "keys ! Suc e \<noteq> keys ! e" using assms by (auto simp: isCellEnd_def)
  ultimately show ?thesis by linarith
qed

lemma startStep_scatter:
  "startStep keys = (\<lambda>t st. if t < int (length keys) \<and> isCellStart keys (nat t)
                             then st[nat (keys ! nat t) := t] else st)"
  by (intro ext) (simp add: startStep_def)

lemma endStep_scatter:
  "endStep keys = (\<lambda>t en. if t < int (length keys) \<and> isCellEnd keys (nat t)
                           then en[nat (keys ! nat t) := t] else en)"
  by (intro ext) (simp add: endStep_def)

lemma fold_startStep_nth:
  assumes sorted: "sorted keys"
    and keys: "\<forall>k < length keys. 0 \<le> keys ! k"
    and ts: "\<forall>t \<in> set ts. 0 \<le> t"
    and g: "g < length st"
  shows "(\<forall>t \<in> set ts. t < int (length keys) \<and> isCellStart keys (nat t) \<and> keys ! nat t = int g \<longrightarrow>
            fold (startStep keys) ts st ! g = t) \<and>
         ((\<forall>t \<in> set ts. \<not> (t < int (length keys) \<and> isCellStart keys (nat t) \<and> keys ! nat t = int g)) \<longrightarrow>
            fold (startStep keys) ts st ! g = st ! g)"
proof -
  define W where "W = (\<lambda>t. t < int (length keys) \<and> isCellStart keys (nat t))"
  define c where "c = (\<lambda>t. nat (keys ! nat t))"
  have F: "startStep keys = (\<lambda>t st. if W t then st[c t := t] else st)"
    by (intro ext) (simp add: startStep_def W_def c_def)
  have cg: "c t = g \<longleftrightarrow> keys ! nat t = int g" if "t \<in> set ts" "t < int (length keys)" for t
  proof -
    have "0 \<le> t" using ts that by simp
    then have "nat t < length keys" using that by simp
    then have "0 \<le> keys ! nat t" using keys by simp
    then show ?thesis unfolding c_def by linarith
  qed
  have uniq: "t = t'" if "t \<in> set ts" "t' \<in> set ts" "W t" "W t'" "c t = c t'" for t t'
  proof -
    have t0: "0 \<le> t" "0 \<le> t'" using ts that by simp_all
    have n: "nat t < length keys" "nat t' < length keys" using that t0 by (auto simp: W_def)
    have "0 \<le> keys ! nat t" "0 \<le> keys ! nat t'" using keys n by simp_all
    then have "keys ! nat t = keys ! nat t'" using that(5) unfolding c_def by linarith
    then have "nat t = nat t'" using start_unique[OF sorted n] that(3,4) by (simp add: W_def)
    then show ?thesis using t0 by linarith
  qed
  note R = scatter_fold_nth[of ts W c "\<lambda>t. t" g st, OF uniq g, folded F]
  show ?thesis
  proof (intro conjI ballI impI)
    fix t assume t: "t \<in> set ts"
      and a: "t < int (length keys) \<and> isCellStart keys (nat t) \<and> keys ! nat t = int g"
    have "W t \<and> c t = g" using a cg[OF t] by (simp add: W_def)
    then show "fold (startStep keys) ts st ! g = t" using R t by blast
  next
    assume no: "\<forall>t \<in> set ts. \<not> (t < int (length keys) \<and> isCellStart keys (nat t) \<and> keys ! nat t = int g)"
    have "\<not> (W t \<and> c t = g)" if t: "t \<in> set ts" for t
    proof
      assume a: "W t \<and> c t = g"
      then have "t < int (length keys)" by (simp add: W_def)
      then show False using a cg[OF t] no t unfolding W_def by blast
    qed
    then show "fold (startStep keys) ts st ! g = st ! g" using R by blast
  qed
qed

lemma fold_endStep_nth:
  assumes sorted: "sorted keys"
    and keys: "\<forall>k < length keys. 0 \<le> keys ! k"
    and ts: "\<forall>t \<in> set ts. 0 \<le> t"
    and g: "g < length st"
  shows "(\<forall>t \<in> set ts. t < int (length keys) \<and> isCellEnd keys (nat t) \<and> keys ! nat t = int g \<longrightarrow>
            fold (endStep keys) ts st ! g = t) \<and>
         ((\<forall>t \<in> set ts. \<not> (t < int (length keys) \<and> isCellEnd keys (nat t) \<and> keys ! nat t = int g)) \<longrightarrow>
            fold (endStep keys) ts st ! g = st ! g)"
proof -
  define W where "W = (\<lambda>t. t < int (length keys) \<and> isCellEnd keys (nat t))"
  define c where "c = (\<lambda>t. nat (keys ! nat t))"
  have F: "endStep keys = (\<lambda>t st. if W t then st[c t := t] else st)"
    by (intro ext) (simp add: endStep_def W_def c_def)
  have cg: "c t = g \<longleftrightarrow> keys ! nat t = int g" if "t \<in> set ts" "t < int (length keys)" for t
  proof -
    have "0 \<le> t" using ts that by simp
    then have "nat t < length keys" using that by simp
    then have "0 \<le> keys ! nat t" using keys by simp
    then show ?thesis unfolding c_def by linarith
  qed
  have uniq: "t = t'" if "t \<in> set ts" "t' \<in> set ts" "W t" "W t'" "c t = c t'" for t t'
  proof -
    have t0: "0 \<le> t" "0 \<le> t'" using ts that by simp_all
    have n: "nat t < length keys" "nat t' < length keys" using that t0 by (auto simp: W_def)
    have "0 \<le> keys ! nat t" "0 \<le> keys ! nat t'" using keys n by simp_all
    then have "keys ! nat t = keys ! nat t'" using that(5) unfolding c_def by linarith
    then have "nat t = nat t'" using end_unique[OF sorted n] that(3,4) by (simp add: W_def)
    then show ?thesis using t0 by linarith
  qed
  note R = scatter_fold_nth[of ts W c "\<lambda>t. t" g st, OF uniq g, folded F]
  show ?thesis
  proof (intro conjI ballI impI)
    fix t assume t: "t \<in> set ts"
      and a: "t < int (length keys) \<and> isCellEnd keys (nat t) \<and> keys ! nat t = int g"
    have "W t \<and> c t = g" using a cg[OF t] by (simp add: W_def)
    then show "fold (endStep keys) ts st ! g = t" using R t by blast
  next
    assume no: "\<forall>t \<in> set ts. \<not> (t < int (length keys) \<and> isCellEnd keys (nat t) \<and> keys ! nat t = int g)"
    have "\<not> (W t \<and> c t = g)" if t: "t \<in> set ts" for t
    proof
      assume a: "W t \<and> c t = g"
      then have "t < int (length keys)" by (simp add: W_def)
      then show False using a cg[OF t] no t unfolding W_def by blast
    qed
    then show "fold (endStep keys) ts st ! g = st ! g" using R by blast
  qed
qed

lemma fold_startStep_length: "length (fold (startStep keys) ts st) = length st"
  by (induction ts arbitrary: st) (auto simp: startStep_length)

lemma fold_endStep_length: "length (fold (endStep keys) ts en) = length en"
  by (induction ts arbitrary: en) (auto simp: endStep_length)

lemma rangeTableOK_fold:
  assumes sorted: "sorted keys"
    and keys: "\<forall>k < length keys. 0 \<le> keys ! k \<and> keys ! k < int C"
    and ts: "\<forall>t \<in> set ts. 0 \<le> t" "\<forall>k < length keys. int k \<in> set ts"
  shows "rangeTableOK keys (fold (startStep keys) ts (replicate C (- 1)))
                           (fold (endStep keys) ts (replicate C (- 1)))"
  unfolding rangeTableOK_def
proof (intro conjI allI impI)
  let ?st = "fold (startStep keys) ts (replicate C (- 1))"
  let ?en = "fold (endStep keys) ts (replicate C (- 1))"
  show "length ?st = length ?en" by (simp add: fold_startStep_length fold_endStep_length)
  fix g assume "g < length ?st"
  then have g: "g < C" by (simp add: fold_startStep_length)
  have k0: "\<forall>k < length keys. 0 \<le> keys ! k" using keys by simp
  have gl: "g < length (replicate C (- 1 :: int))" using g by simp
  note S = fold_startStep_nth[OF sorted k0 ts(1) gl]
  note E = fold_endStep_nth[OF sorted k0 ts(1) gl]
  show "if int g \<in> set keys
        then \<exists>s e. ?st ! g = int s \<and> ?en ! g = int e \<and> s \<le> e \<and> e < length keys \<and>
                   (\<forall>k < length keys. keys ! k = int g \<longleftrightarrow> s \<le> k \<and> k \<le> e)
        else ?st ! g = - 1 \<and> ?en ! g = - 1"
  proof (cases "int g \<in> set keys")
    case False
    have no: "\<not> (t < int (length keys) \<and> keys ! nat t = int g)" if "t \<in> set ts" for t
    proof
      assume a: "t < int (length keys) \<and> keys ! nat t = int g"
      have "0 \<le> t" using ts(1) that by simp
      then have "nat t < length keys" using a by linarith
      then have "keys ! nat t \<in> set keys" by (rule nth_mem)
      then show False using a False by simp
    qed
    have "?st ! g = replicate C (- 1) ! g"
      by (rule S[THEN conjunct2, rule_format]) (use no in blast)
    moreover have "?en ! g = replicate C (- 1) ! g"
      by (rule E[THEN conjunct2, rule_format]) (use no in blast)
    ultimately have "?st ! g = - 1" "?en ! g = - 1" using g by simp_all
    then show ?thesis using False by simp
  next
    case True
    then obtain k where k: "k < length keys" "keys ! k = int g" by (auto simp: in_set_conv_nth)
    obtain s where s: "s \<le> k" "isCellStart keys s" "keys ! s = int g"
      using start_exists[OF sorted k(1)] k(2) by auto
    obtain e where e: "k \<le> e" "e < length keys" "isCellEnd keys e" "keys ! e = int g"
      using end_exists[OF sorted k(1)] k(2) by auto
    have sl: "s < length keys" using s k by simp
    have ins: "int s \<in> set ts" and ine: "int e \<in> set ts" using ts(2) sl e by auto
    have 1: "?st ! g = int s"
      by (rule S[THEN conjunct1, rule_format, OF ins]) (use s sl in simp)
    have 2: "?en ! g = int e"
      by (rule E[THEN conjunct1, rule_format, OF ine]) (use e in simp)
    have 3: "keys ! j = int g \<longleftrightarrow> s \<le> j \<and> j \<le> e" if j: "j < length keys" for j
    proof
      assume eq: "keys ! j = int g"
      have "\<not> j < s" using start_below[OF sorted sl s(2), of j] eq s(3) by auto
      moreover have "\<not> e < j" using end_above[OF sorted e(2,3) _ j] eq e(4) by auto
      ultimately show "s \<le> j \<and> j \<le> e" by simp
    next
      assume sj: "s \<le> j \<and> j \<le> e"
      have "keys ! s \<le> keys ! j" using sj j by (intro sorted_nth_mono[OF sorted]) simp_all
      moreover have "keys ! j \<le> keys ! e" using sj e by (intro sorted_nth_mono[OF sorted]) simp_all
      ultimately show "keys ! j = int g" using s e by simp
    qed
    have se: "s \<le> e" using s e by simp
    have "\<exists>s e. ?st ! g = int s \<and> ?en ! g = int e \<and> s \<le> e \<and> e < length keys \<and>
                   (\<forall>k < length keys. keys ! k = int g \<longleftrightarrow> s \<le> k \<and> k \<le> e)"
      using 1 2 3 se e(2) by blast
    then show ?thesis using True by simp
  qed
qed

lemma kernResetIntBuffer_launch:
  assumes "0 \<le> C" "C \<le> int (length buf)"
  shows "launch C (kernResetIntBuffer C v) buf = Some (replicate (nat C) v @ drop (nat C) buf)"
proof -
  have "launch C (kernResetIntBuffer C v) buf = Some (map (\<lambda>_. v) [0 ..< nat C] @ drop (nat C) buf)"
  proof (rule launch_map[OF assms])
    fix i and s :: "int list" assume "0 \<le> i" "i < C" "length s = length buf"
    then show "kernResetIntBuffer C v i s = Some (s[nat i := v])"
      using assms by (simp add: kernResetIntBuffer_def wr_def)
  next
    fix i and s :: "int list" assume "C \<le> i"
    then show "kernResetIntBuffer C v i s = Some s" by (simp add: kernResetIntBuffer_def)
  qed
  then show ?thesis by (simp add: map_replicate_const)
qed

lemma threadIds_cover:
  assumes "0 \<le> N"
  shows "\<forall>t \<in> set (threadIds N). 0 \<le> t" "\<forall>k < nat N. int k \<in> set (threadIds N)"
  using fullBlocks_cover[OF assms] by (auto simp: threadIds_def)

lemma rangeTable_Some:
  assumes N: "N = int (length keys)"
    and keys: "\<forall>k < length keys. 0 \<le> keys ! k \<and> keys ! k < cellCount"
    and len: "int (length starts0) = cellCount" "int (length ends0) = cellCount"
  shows "rangeTable N cellCount keys starts0 ends0 =
           Some (fold (startStep keys) (threadIds N) (replicate (nat cellCount) (- 1)),
                 fold (endStep keys) (threadIds N) (replicate (nat cellCount) (- 1)))"
proof -
  have C: "0 \<le> cellCount" using len by linarith
  have r1: "launch cellCount (kernResetIntBuffer cellCount (- 1)) starts0 =
              Some (replicate (nat cellCount) (- 1))"
    using kernResetIntBuffer_launch[OF C, of starts0 "- 1"] len by simp
  have r2: "launch cellCount (kernResetIntBuffer cellCount (- 1)) ends0 =
              Some (replicate (nat cellCount) (- 1))"
    using kernResetIntBuffer_launch[OF C, of ends0 "- 1"] len by simp
  have k: "\<forall>k < length keys. 0 \<le> keys ! k \<and> keys ! k < int (nat cellCount)"
    using keys C by simp
  have N0: "0 \<le> N" using N by simp
  have r3: "launch N (kernIdentifyCellStartEnd N keys)
              (replicate (nat cellCount) (- 1), replicate (nat cellCount) (- 1)) =
            Some (fold (startStep keys) (threadIds N) (replicate (nat cellCount) (- 1)),
                  fold (endStep keys) (threadIds N) (replicate (nat cellCount) (- 1)))"
    unfolding launch_def
    by (rule kernIdentifyCellStartEnd_forM[OF N k _ _ threadIds_cover(1)[OF N0]]) simp_all
  show ?thesis by (simp add: rangeTable_def r1 r2 r3)
qed

lemma rangeTableOK_unique:
  assumes "rangeTableOK keys st en" "rangeTableOK keys st' en'" "length st = length st'"
  shows "st = st' \<and> en = en'"
proof -
  have len: "length en = length st" "length en' = length st'"
    using assms by (simp_all add: rangeTableOK_def)
  have "st ! g = st' ! g \<and> en ! g = en' ! g" if g: "g < length st" for g
  proof (cases "int g \<in> set keys")
    case False
    then show ?thesis using assms g by (simp add: rangeTableOK_def)
  next
    case True
    obtain s e where 1: "st ! g = int s" "en ! g = int e" "s \<le> e" "e < length keys"
      "\<forall>k < length keys. keys ! k = int g \<longleftrightarrow> s \<le> k \<and> k \<le> e"
      using assms(1) g True unfolding rangeTableOK_def by (metis (no_types, lifting))
    obtain s' e' where 2: "st' ! g = int s'" "en' ! g = int e'" "s' \<le> e'" "e' < length keys"
      "\<forall>k < length keys. keys ! k = int g \<longleftrightarrow> s' \<le> k \<and> k \<le> e'"
      using assms(2,3) g True unfolding rangeTableOK_def by (metis (no_types, lifting))
    have sl: "s < length keys" "s' < length keys" using 1 2 by simp_all
    have "keys ! s = int g" "keys ! e = int g" using 1 sl by simp_all
    then have a: "s' \<le> s" "e \<le> e'" using 2(5) sl 1(4) by simp_all
    have "keys ! s' = int g" "keys ! e' = int g" using 2 sl by simp_all
    then have b: "s \<le> s'" "e' \<le> e" using 1(5) sl 2(4) by simp_all
    show ?thesis using a b 1 2 by simp
  qed
  then show ?thesis using assms(3) len by (auto intro!: nth_equalityI)
qed


lemma rangeTableOK_contains:
  assumes "rangeTableOK keys st en" "k < length keys" "0 \<le> keys ! k" "nat (keys ! k) < length st"
  shows "st ! nat (keys ! k) \<le> int k \<and> int k \<le> en ! nat (keys ! k)"
proof -
  let ?g = "nat (keys ! k)"
  have g: "int ?g \<in> set keys" using assms(2,3) by simp
  obtain s e where 1: "st ! ?g = int s" "en ! ?g = int e"
    "\<forall>j < length keys. keys ! j = int ?g \<longleftrightarrow> s \<le> j \<and> j \<le> e"
    using assms(1,4) g unfolding rangeTableOK_def by (metis (no_types, lifting))
  have "keys ! k = int ?g" using assms(3) by simp
  then have "s \<le> k \<and> k \<le> e" using 1(3)[rule_format, OF assms(2)] by blast
  then show ?thesis using 1 by simp
qed

lemma rangeTableOK_disjoint:
  assumes "rangeTableOK keys st en" "g < length st" "h < length st" "g \<noteq> h"
    and "st ! g \<noteq> - 1" "st ! h \<noteq> - 1"
  shows "en ! g < st ! h \<or> en ! h < st ! g"
proof -
  have gk: "int g \<in> set keys" and hk: "int h \<in> set keys"
    using assms unfolding rangeTableOK_def by metis+
  obtain s e where 1: "st ! g = int s" "en ! g = int e" "s \<le> e" "e < length keys"
    "\<forall>j < length keys. keys ! j = int g \<longleftrightarrow> s \<le> j \<and> j \<le> e"
    using assms(1,2) gk unfolding rangeTableOK_def by (metis (no_types, lifting))
  obtain s' e' where 2: "st ! h = int s'" "en ! h = int e'" "s' \<le> e'" "e' < length keys"
    "\<forall>j < length keys. keys ! j = int h \<longleftrightarrow> s' \<le> j \<and> j \<le> e'"
    using assms(1,3) hk unfolding rangeTableOK_def by (metis (no_types, lifting))
  have "e < s' \<or> e' < s"
  proof (rule ccontr)
    assume "\<not> (e < s' \<or> e' < s)"
    then have o: "s' \<le> e" "s \<le> e'" by simp_all
    define j where "j = max s s'"
    have j: "j < length keys" "s \<le> j" "j \<le> e" "s' \<le> j" "j \<le> e'"
      using o 1(3,4) 2(3,4) by (auto simp: j_def)
    then have "keys ! j = int g" "keys ! j = int h" using 1(5) 2(5) by simp_all
    then show False using assms(4) by simp
  qed
  then show ?thesis using 1 2 by simp
qed

text \<open>
  Claim C3. For non-decreasing labels \<open>keys\<close> of length \<open>N\<close>, each a valid cell label, the
  two resets to \<open>-1\<close> followed by \<^verbatim>\<open>kernIdentifyCellStartEnd\<close> return tables in which every
  sorted position \<open>k\<close> lies in the range of its cell, the ranges of two different non-empty
  cells do not overlap, and a cell whose label occurs nowhere keeps \<open>-1\<close> in both tables.
  The tables satisfy \<open>rangeTableOK\<close>, and every schedule of the threads that runs each of
  the threads \<open>0 .. N - 1\<close> at least once yields the same tables.
\<close>

theorem rangeTable_ranges:
  assumes "sorted keys" and "N = int (length keys)"
    and "\<forall>k < length keys. 0 \<le> keys ! k \<and> keys ! k < cellCount"
    and "int (length starts0) = cellCount" "int (length ends0) = cellCount"
  shows "\<exists>starts ends.
           rangeTable N cellCount keys starts0 ends0 = Some (starts, ends) \<and>
           length starts = length starts0 \<and> length ends = length ends0 \<and>
           (\<forall>k < length keys.
              starts ! nat (keys ! k) \<le> int k \<and> int k \<le> ends ! nat (keys ! k)) \<and>
           (\<forall>g h. g < length starts \<and> h < length starts \<and> g \<noteq> h \<and>
                  starts ! g \<noteq> - 1 \<and> starts ! h \<noteq> - 1 \<longrightarrow>
                  ends ! g < starts ! h \<or> ends ! h < starts ! g) \<and>
           (\<forall>g < length starts. int g \<notin> set keys \<longrightarrow> starts ! g = - 1 \<and> ends ! g = - 1) \<and>
           rangeTableOK keys starts ends \<and>
           (\<forall>ts. (\<forall>t \<in> set ts. 0 \<le> t) \<and> (\<forall>k < length keys. int k \<in> set ts) \<longrightarrow>
              forM ts (kernIdentifyCellStartEnd N keys)
                (replicate (length starts0) (- 1), replicate (length ends0) (- 1)) =
              Some (starts, ends))"
proof -
  let ?C = "nat cellCount"
  let ?st = "fold (startStep keys) (threadIds N) (replicate ?C (- 1))"
  let ?en = "fold (endStep keys) (threadIds N) (replicate ?C (- 1))"
  have C: "?C = length starts0" "?C = length ends0" using assms(4,5) by auto
  have N0: "0 \<le> N" using assms(2) by simp
  have kC: "\<forall>k < length keys. 0 \<le> keys ! k \<and> keys ! k < int ?C" using assms(3,4) by auto
  have 1: "rangeTable N cellCount keys starts0 ends0 = Some (?st, ?en)"
    by (rule rangeTable_Some[OF assms(2-5)])
  have 2: "length ?st = length starts0" "length ?en = length ends0"
    using C by (simp_all add: fold_startStep_length fold_endStep_length)
  have cover: "\<forall>k < length keys. int k \<in> set (threadIds N)"
    using threadIds_cover(2)[OF N0] assms(2) by simp
  have ok: "rangeTableOK keys ?st ?en"
    by (rule rangeTableOK_fold[OF assms(1) kC threadIds_cover(1)[OF N0] cover])
  have 3: "\<forall>k < length keys. ?st ! nat (keys ! k) \<le> int k \<and> int k \<le> ?en ! nat (keys ! k)"
  proof (intro allI impI)
    fix k assume k: "k < length keys"
    have "nat (keys ! k) < length ?st" using kC k 2 C by (simp add: nat_less_iff)
    then show "?st ! nat (keys ! k) \<le> int k \<and> int k \<le> ?en ! nat (keys ! k)"
      using rangeTableOK_contains[OF ok k] kC k by simp
  qed
  have 4: "\<forall>g h. g < length ?st \<and> h < length ?st \<and> g \<noteq> h \<and> ?st ! g \<noteq> - 1 \<and> ?st ! h \<noteq> - 1 \<longrightarrow>
             ?en ! g < ?st ! h \<or> ?en ! h < ?st ! g"
    using rangeTableOK_disjoint[OF ok] by blast
  have 5: "\<forall>g < length ?st. int g \<notin> set keys \<longrightarrow> ?st ! g = - 1 \<and> ?en ! g = - 1"
    using ok unfolding rangeTableOK_def by metis
  have 6: "\<forall>ts. (\<forall>t \<in> set ts. 0 \<le> t) \<and> (\<forall>k < length keys. int k \<in> set ts) \<longrightarrow>
              forM ts (kernIdentifyCellStartEnd N keys)
                (replicate (length starts0) (- 1), replicate (length ends0) (- 1)) = Some (?st, ?en)"
  proof (intro allI impI)
    fix ts assume ts: "(\<forall>t \<in> set ts. 0 \<le> t) \<and> (\<forall>k < length keys. int k \<in> set ts)"
    let ?st' = "fold (startStep keys) ts (replicate ?C (- 1))"
    let ?en' = "fold (endStep keys) ts (replicate ?C (- 1))"
    have a: "forM ts (kernIdentifyCellStartEnd N keys) (replicate ?C (- 1), replicate ?C (- 1)) =
               Some (?st', ?en')"
      by (rule kernIdentifyCellStartEnd_forM[OF assms(2) kC]) (use ts in simp_all)
    have ok': "rangeTableOK keys ?st' ?en'"
      by (rule rangeTableOK_fold[OF assms(1) kC]) (use ts in simp_all)
    have "?st' = ?st \<and> ?en' = ?en"
      by (rule rangeTableOK_unique[OF ok' ok]) (simp add: fold_startStep_length)
    then show "forM ts (kernIdentifyCellStartEnd N keys)
                (replicate (length starts0) (- 1), replicate (length ends0) (- 1)) = Some (?st, ?en)"
      using a C by simp
  qed
  show ?thesis using 1 2 3 4 5 6 ok by blast
qed

text \<open>Four agents in cells 0, 2, 2, 3 of five; the threads run in the order 3, 1, 0, 2.\<close>

theorem rangeTable_ranges_witness:
  "rangeTable 4 5 [0, 2, 2, 3] [9, 9, 9, 9, 9] [9, 9, 9, 9, 9] =
     Some ([0, - 1, 1, 3, - 1], [0, - 1, 2, 3, - 1])"
proof -
  have "\<forall>x \<in> set [0, 2, 2, 3 :: int]. 0 \<le> x \<and> x < 5" by simp
  then have k: "\<forall>k < length [0, 2, 2, 3 :: int]. 0 \<le> [0, 2, 2, 3 :: int] ! k \<and> [0, 2, 2, 3 :: int] ! k < 5"
    unfolding all_set_conv_all_nth .
  have "\<exists>starts ends.
           rangeTable 4 5 [0, 2, 2, 3] [9, 9, 9, 9, 9] [9, 9, 9, 9, 9] = Some (starts, ends) \<and>
           (\<forall>ts. (\<forall>t \<in> set ts. 0 \<le> t) \<and> (\<forall>k < length [0, 2, 2, 3 :: int]. int k \<in> set ts) \<longrightarrow>
              forM ts (kernIdentifyCellStartEnd 4 [0, 2, 2, 3])
                (replicate (length [9, 9, 9, 9, 9 :: int]) (- 1),
                 replicate (length [9, 9, 9, 9, 9 :: int]) (- 1)) =
              Some (starts, ends))"
    using rangeTable_ranges[of "[0, 2, 2, 3]" 4 5 "[9, 9, 9, 9, 9]" "[9, 9, 9, 9, 9]", OF _ _ k]
    by simp blast
  then obtain starts ends where
    r: "rangeTable 4 5 [0, 2, 2, 3] [9, 9, 9, 9, 9] [9, 9, 9, 9, 9] = Some (starts, ends)"
    and s: "\<forall>ts. (\<forall>t \<in> set ts. 0 \<le> t) \<and> (\<forall>k < length [0, 2, 2, 3 :: int]. int k \<in> set ts) \<longrightarrow>
              forM ts (kernIdentifyCellStartEnd 4 [0, 2, 2, 3])
                (replicate (length [9, 9, 9, 9, 9 :: int]) (- 1),
                 replicate (length [9, 9, 9, 9, 9 :: int]) (- 1)) =
              Some (starts, ends)"
    by blast
  have c: "(\<forall>t \<in> set [3, 1, 0, 2 :: int]. 0 \<le> t) \<and>
           (\<forall>k < length [0, 2, 2, 3 :: int]. int k \<in> set [3, 1, 0, 2])"
  proof (intro conjI allI impI)
    show "\<forall>t \<in> set [3, 1, 0, 2 :: int]. 0 \<le> t" by simp
    fix k :: nat assume "k < length [0, 2, 2, 3 :: int]"
    then have "k = 0 \<or> k = 1 \<or> k = 2 \<or> k = 3" by auto
    then show "int k \<in> set [3, 1, 0, 2]" by auto
  qed
  have "forM [3, 1, 0, 2] (kernIdentifyCellStartEnd 4 [0, 2, 2, 3])
          (replicate (length [9, 9, 9, 9, 9 :: int]) (- 1),
           replicate (length [9, 9, 9, 9, 9 :: int]) (- 1)) =
        Some ([0, - 1, 1, 3, - 1], [0, - 1, 2, 3, - 1])"
    by code_simp
  then have "(starts, ends) = ([0, - 1, 1, 3, - 1], [0, - 1, 2, 3, - 1])"
    using s[rule_format, OF c] by simp
  then show ?thesis using r by simp
qed

section \<open>Accumulators as folds over the scanned agents\<close>

lemma forM_fold_concat:
  assumes "\<And>k a. k \<in> set ks \<Longrightarrow> body k a = Some (fold f (Lf k) a)"
  shows "forM ks body a = Some (fold f (concat (map Lf ks)) a)"
  using assms by (induction ks arbitrary: a) auto

lemma visitCell_fold:
  assumes "\<And>g a. 0 \<le> g \<Longrightarrow> g < R * R * R \<Longrightarrow> cell g a = Some (fold f (E g) a)"
  shows "visitCell R x y z cell i j k a = Some (fold f (cellList R x y z E i j k) a)"
proof (cases "x + i < 0 \<or> x + i \<ge> R \<or> y + j < 0 \<or> y + j \<ge> R \<or> z + k < 0 \<or> z + k \<ge> R")
  case True
  then show ?thesis by (auto simp: visitCell_def cellList_def Let_def)
next
  case False
  then have "0 \<le> gridIndex3Dto1D (x + i) (y + j) (z + k) R"
    "gridIndex3Dto1D (x + i) (y + j) (z + k) R < R * R * R"
    by (auto intro!: gridIndex3Dto1D_bounds)
  then show ?thesis using False assms by (auto simp: visitCell_def cellList_def Let_def)
qed

lemma cellScan_fold:
  assumes "\<And>g a. 0 \<le> g \<Longrightarrow> g < R * R * R \<Longrightarrow> cell g a = Some (fold f (E g) a)"
  shows "cellScan m R x y z xf yf zf cell a = Some (fold f (scanList m R x y z xf yf zf E) a)"
  unfolding cellScan_def scanList_def
  by (auto intro!: forM_fold_concat visitCell_fold[OF assms])

lemma upt_split3:
  assumes "s \<le> e" "e \<le> N"
  shows "[0 ..< N] = [0 ..< s] @ [s ..< e] @ [e ..< N]"
proof -
  have "[0 ..< N] = [0 ..< e] @ [e ..< N]"
    using upt_add_eq_append[of 0 e "N - e"] assms by simp
  moreover have "[0 ..< e] = [0 ..< s] @ [s ..< e]"
    using upt_add_eq_append[of 0 s "e - s"] assms by simp
  ultimately show ?thesis by simp
qed

lemma filter_upt_interval:
  assumes "e < N" "\<forall>k < N. P k \<longleftrightarrow> s \<le> k \<and> k \<le> e" "s \<le> e"
  shows "filter P [0 ..< N] = [s ..< Suc e]"
proof -
  have "[0 ..< N] = [0 ..< s] @ [s ..< Suc e] @ [Suc e ..< N]"
    using assms by (intro upt_split3) simp_all
  moreover have "filter P [0 ..< s] = []" using assms by (auto simp: filter_empty_conv)
  moreover have "filter P [Suc e ..< N] = []" using assms by (auto simp: filter_empty_conv)
  moreover have "filter P [s ..< Suc e] = [s ..< Suc e]" using assms by (auto simp: filter_id_conv)
  ultimately show ?thesis by simp
qed

lemma upto_int_map: "[int s .. int e] = map int [s ..< Suc e]"
proof (induction e)
  case 0
  then show ?case by (cases "s = 0") (simp_all add: upto_rec1)
next
  case (Suc e)
  show ?case
  proof (cases "s \<le> Suc e")
    case True
    then have "[int s .. int (Suc e)] = [int s .. int e] @ [int (Suc e)]"
      using upto_rec2[of "int s" "int (Suc e)"] by simp
    then show ?thesis using Suc True by simp
  next
    case False
    then show ?thesis by simp
  qed
qed

lemma fold_skip_self:
  "fold (\<lambda>k a. if sel k = self then a else f (sel k) a) ks a =
   fold f (filter (\<lambda>j. j \<noteq> self) (map sel ks)) a"
  by (induction ks arbitrary: a) auto

lemma rangeTableOK_cases:
  assumes "rangeTableOK keys starts ends" "g < length starts"
  obtains (empty) "starts ! g = - 1" "ends ! g = - 1" "filter (\<lambda>k. keys ! k = int g) [0 ..< length keys] = []"
  | (range) s e where "starts ! g = int s" "ends ! g = int e" "s \<le> e" "e < length keys"
      "filter (\<lambda>k. keys ! k = int g) [0 ..< length keys] = [s ..< Suc e]"
proof (cases "int g \<in> set keys")
  case False
  then have "starts ! g = - 1" "ends ! g = - 1"
    using assms unfolding rangeTableOK_def by metis+
  moreover have "keys ! k \<noteq> int g" if "k < length keys" for k
    using False nth_mem[OF that] by auto
  then have "filter (\<lambda>k. keys ! k = int g) [0 ..< length keys] = []"
    by (simp add: filter_empty_conv)
  ultimately show ?thesis by (rule empty)
next
  case True
  then obtain s e where 1: "starts ! g = int s" "ends ! g = int e" "s \<le> e" "e < length keys"
    "\<forall>k < length keys. keys ! k = int g \<longleftrightarrow> s \<le> k \<and> k \<le> e"
    using assms unfolding rangeTableOK_def by (metis (no_types, lifting))
  have "filter (\<lambda>k. keys ! k = int g) [0 ..< length keys] = [s ..< Suc e]"
    by (rule filter_upt_interval[OF 1(4,5,3)])
  then show ?thesis using 1 by (intro range)
qed

lemma computeVelScattered_fold:
  assumes ok: "rangeTableOK keys starts ends"
    and g: "0 \<le> g" "g < int (length starts)"
    and idx: "length indices = length keys"
      "\<forall>k < length keys. 0 \<le> indices ! k \<and> indices ! k < int (length pos)"
    and vel: "length vel = length pos"
    and self: "self < length pos"
  shows "computeVelScattered (int self) g starts ends indices pos vel a =
           Some (fold (neighborStep pos vel self)
                   (filter (\<lambda>j. j \<noteq> self) (cellAgents keys indices g)) a)"
proof -
  have gl: "nat g < length starts" using g by simp
  have le: "length ends = length starts" using ok by (simp add: rangeTableOK_def)
  have rs: "rd starts g = Some (starts ! nat g)" "rd ends g = Some (ends ! nat g)"
    using g le by (simp_all add: rd_def)
  from ok gl show ?thesis
  proof (cases rule: rangeTableOK_cases)
    case empty
    then show ?thesis using g by (simp add: computeVelScattered_def rs cellAgents_def)
  next
    case (range s e)
    have body: "computeVelScattered_body (int self) indices pos vel k a =
                  Some (if nat (indices ! nat k) = self then a
                        else neighborStep pos vel self (nat (indices ! nat k)) a)"
      if "k \<in> set [int s .. int e]" for k a
    proof -
      have k: "0 \<le> k" "nat k < length keys" using that range(4) by auto
      then have i: "0 \<le> indices ! nat k" "indices ! nat k < int (length pos)" using idx by auto
      have r: "rd indices k = Some (indices ! nat k)" using k idx by (simp add: rd_def)
      show ?thesis
        using i self vel neighborRules_Some[of "int self" pos "indices ! nat k" vel a]
        by (auto simp: computeVelScattered_body_def r)
    qed
    have "forM [int s .. int e] (computeVelScattered_body (int self) indices pos vel) a =
            Some (fold (\<lambda>k a. if nat (indices ! nat k) = self then a
                               else neighborStep pos vel self (nat (indices ! nat k)) a)
                    [int s .. int e] a)"
      by (rule forM_pure) (rule body)
    also have "\<dots> = Some (fold (neighborStep pos vel self)
                   (filter (\<lambda>j. j \<noteq> self) (map (\<lambda>k. nat (indices ! nat k)) [int s .. int e])) a)"
      by (simp only: fold_skip_self[of "\<lambda>k. nat (indices ! nat k)" self "neighborStep pos vel self"])
    also have "map (\<lambda>k. nat (indices ! nat k)) [int s .. int e] = cellAgents keys indices g"
      using range(5) g by (simp add: cellAgents_def upto_int_map comp_def)
    finally show ?thesis
      using range(1-3) g by (simp add: computeVelScattered_def rs)
  qed
qed

lemma computeVelCoherent_fold:
  assumes ok: "rangeTableOK keys starts ends"
    and g: "0 \<le> g" "g < int (length starts)"
    and len: "length keys = length pos" "length vel = length pos"
    and self: "self < length pos"
  shows "computeVelCoherent (int self) g starts ends pos vel a =
           Some (fold (neighborStep pos vel self)
                   (filter (\<lambda>j. j \<noteq> self) (cellAgents keys (map int [0 ..< length keys]) g)) a)"
proof -
  have gl: "nat g < length starts" using g by simp
  have le: "length ends = length starts" using ok by (simp add: rangeTableOK_def)
  have rs: "rd starts g = Some (starts ! nat g)" "rd ends g = Some (ends ! nat g)"
    using g le by (simp_all add: rd_def)
  have ca: "cellAgents keys (map int [0 ..< length keys]) g =
              filter (\<lambda>k. keys ! k = g) [0 ..< length keys]"
    unfolding cellAgents_def by (rule map_idI) simp
  from ok gl show ?thesis
  proof (cases rule: rangeTableOK_cases)
    case empty
    then show ?thesis using g by (simp add: computeVelCoherent_def rs ca)
  next
    case (range s e)
    have body: "computeVelCoherent_body (int self) pos vel k a =
                  Some (if nat k = self then a else neighborStep pos vel self (nat k) a)"
      if "k \<in> set [int s .. int e]" for k a
    proof -
      have k: "0 \<le> k" "nat k < length pos" using that range(4) len by auto
      show ?thesis
        using k self len neighborRules_Some[of "int self" pos k vel a]
        by (auto simp: computeVelCoherent_body_def)
    qed
    have "forM [int s .. int e] (computeVelCoherent_body (int self) pos vel) a =
            Some (fold (\<lambda>k a. if nat k = self then a else neighborStep pos vel self (nat k) a)
                    [int s .. int e] a)"
      by (rule forM_pure) (rule body)
    also have "\<dots> = Some (fold (neighborStep pos vel self)
                   (filter (\<lambda>j. j \<noteq> self) (map nat [int s .. int e])) a)"
      by (simp only: fold_skip_self[of nat self "neighborStep pos vel self"])
    also have "map nat [int s .. int e] = cellAgents keys (map int [0 ..< length keys]) g"
      using range(5) g by (simp add: ca upto_int_map comp_def map_idI)
    finally show ?thesis
      using range(1-3) g by (simp add: computeVelCoherent_def rs)
  qed
qed

lemma perm_indices:
  assumes "mset vs = mset (map int [0 ..< n])"
  shows "length vs = n" "\<forall>k < n. 0 \<le> vs ! k \<and> nat (vs ! k) < n"
    "mset (map (\<lambda>k. nat (vs ! k)) [0 ..< n]) = mset [0 ..< n]"
    "inj_on (\<lambda>k. nat (vs ! k)) {0 ..< n}"
proof -
  show len: "length vs = n" using assms by (metis length_map length_upt mset_eq_length minus_nat.diff_0)
  have set: "set vs = set (map int [0 ..< n])" using assms by (metis set_mset_mset)
  show b: "\<forall>k < n. 0 \<le> vs ! k \<and> nat (vs ! k) < n"
  proof (intro allI impI)
    fix k assume "k < n"
    then have "vs ! k \<in> set vs" using len by simp
    then show "0 \<le> vs ! k \<and> nat (vs ! k) < n" unfolding set by auto
  qed
  have e1: "map (\<lambda>k. nat (vs ! k)) [0 ..< n] = map nat vs"
    using len by (intro nth_equalityI) simp_all
  have e2: "mset (map nat vs) = mset (map nat (map int [0 ..< n]))"
    using assms by (simp only: mset_map)
  have e3: "map nat (map int [0 ..< n]) = [0 ..< n]" by (intro nth_equalityI) simp_all
  show m: "mset (map (\<lambda>k. nat (vs ! k)) [0 ..< n]) = mset [0 ..< n]"
    by (simp only: e1 e2 e3)
  have "distinct (map (\<lambda>k. nat (vs ! k)) [0 ..< n])"
    using mset_eq_imp_distinct_iff[OF m] by simp
  then show "inj_on (\<lambda>k. nat (vs ! k)) {0 ..< n}" by (simp add: distinct_map)
qed

lemma neighborSearch_fold:
  assumes "\<And>g a. 0 \<le> g \<Longrightarrow> g < R * R * R \<Longrightarrow> cell g a = Some (fold f (E g) a)"
  shows "neighborSearch m R gridMin icw p cell a = Some (fold f (scanAgents m R gridMin icw E p) a)"
  unfolding neighborSearch_def scanAgents_def Let_def by (rule cellScan_fold[OF assms])

lemma gridOK_indices:
  assumes "gridOK R keys indices n starts ends"
  shows "\<forall>k < length keys. 0 \<le> indices ! k \<and> indices ! k < int n"
  using assms perm_indices(2)[of indices n] by (auto simp: gridOK_def)

lemma neighborSearch_scattered:
  assumes ok: "gridOK R keys indices (length pos) starts ends"
    and vel: "length vel = length pos"
    and self: "self < length pos"
  shows "neighborSearch m R gridMin icw (pos ! self)
           (\<lambda>g. computeVelScattered (int self) g starts ends indices pos vel) accum0 =
         Some (gridAccum m R gridMin icw keys indices pos vel self)"
proof -
  have len: "length indices = length keys" "int (length starts) = R * R * R"
    "rangeTableOK keys starts ends" "length keys = length pos"
    using ok by (simp_all add: gridOK_def)
  have idx: "\<forall>k < length keys. 0 \<le> indices ! k \<and> indices ! k < int (length pos)"
    by (rule gridOK_indices[OF ok])
  have cell: "computeVelScattered (int self) g starts ends indices pos vel a =
                Some (fold (neighborStep pos vel self)
                        (filter (\<lambda>j. j \<noteq> self) (cellAgents keys indices g)) a)"
    if "0 \<le> g" "g < R * R * R" for g a
    by (rule computeVelScattered_fold[OF len(3) that(1) _ len(1) idx vel self])
       (use that len in simp)
  show ?thesis
    unfolding gridAccum_def by (rule neighborSearch_fold) (rule cell)
qed

lemma neighborSearch_coherent:
  assumes ok: "gridOK R keys (map int [0 ..< length pos]) (length pos) starts ends"
    and vel: "length vel = length pos"
    and self: "self < length pos"
  shows "neighborSearch m R gridMin icw (pos ! self)
           (\<lambda>g. computeVelCoherent (int self) g starts ends pos vel) accum0 =
         Some (gridAccum m R gridMin icw keys (map int [0 ..< length pos]) pos vel self)"
proof -
  have len: "int (length starts) = R * R * R" "rangeTableOK keys starts ends"
    "length keys = length pos"
    using ok by (simp_all add: gridOK_def)
  have cell: "computeVelCoherent (int self) g starts ends pos vel a =
                Some (fold (neighborStep pos vel self)
                        (filter (\<lambda>j. j \<noteq> self)
                           (cellAgents keys (map int [0 ..< length pos]) g)) a)"
    if "0 \<le> g" "g < R * R * R" for g a
    using computeVelCoherent_fold[OF len(2) that(1) _ len(3) vel self, of a] that len by simp
  show ?thesis
    unfolding gridAccum_def by (rule neighborSearch_fold) (rule cell)
qed

lemma kernUpdateVelNeighborSearchScattered_launch:
  assumes ok: "gridOK R keys indices (length pos) starts ends"
    and len: "length vel1 = length pos" "length vel2 = length pos" "N = int (length pos)"
  shows "launch N (kernUpdateVelNeighborSearchScattered m N R gridMin icw cw starts ends indices
                     pos vel1) vel2 =
           Some (gridVels m R gridMin icw keys indices pos vel1)"
proof -
  have "launch N (kernUpdateVelNeighborSearchScattered m N R gridMin icw cw starts ends indices
                     pos vel1) vel2 =
           Some (map (gridVel m R gridMin icw keys indices pos vel1) [0 ..< nat N] @ drop (nat N) vel2)"
  proof (rule launch_map)
    show "0 \<le> N" "N \<le> int (length vel2)" using len by simp_all
    fix i and s :: "vec3 list" assume i: "0 \<le> i" "i < N" and s: "length s = length vel2"
    have self: "nat i < length pos" using i len by simp
    have ns: "neighborSearch m R gridMin icw (pos ! nat i)
           (\<lambda>g. computeVelScattered i g starts ends indices pos vel1) accum0 =
         Some (gridAccum m R gridMin icw keys indices pos vel1 (nat i))"
      using neighborSearch_scattered[OF ok len(1) self] i by simp
    show "kernUpdateVelNeighborSearchScattered m N R gridMin icw cw starts ends indices pos vel1 i s =
            Some (s[nat i := gridVel m R gridMin icw keys indices pos vel1 (nat i)])"
      using i s len self
      by (simp add: kernUpdateVelNeighborSearchScattered_def rd_def wr_def ns gridVel_def
          gridNewVel_ruleSum)
  next
    fix i and s :: "vec3 list" assume "N \<le> i"
    then show "kernUpdateVelNeighborSearchScattered m N R gridMin icw cw starts ends indices pos vel1 i s
                 = Some s"
      by (simp add: kernUpdateVelNeighborSearchScattered_def)
  qed
  then show ?thesis using len by (simp add: gridVels_def)
qed

lemma kernUpdateVelNeighborSearchCoherent_launch:
  assumes ok: "gridOK R keys (map int [0 ..< length pos]) (length pos) starts ends"
    and len: "length vel1 = length pos" "length vel2 = length pos" "N = int (length pos)"
  shows "launch N (kernUpdateVelNeighborSearchCoherent m N R gridMin icw cw starts ends
                     pos vel1) vel2 =
           Some (gridVels m R gridMin icw keys (map int [0 ..< length pos]) pos vel1)"
proof -
  let ?ids = "map int [0 ..< length pos]"
  have "launch N (kernUpdateVelNeighborSearchCoherent m N R gridMin icw cw starts ends
                     pos vel1) vel2 =
           Some (map (gridVel m R gridMin icw keys ?ids pos vel1) [0 ..< nat N] @ drop (nat N) vel2)"
  proof (rule launch_map)
    show "0 \<le> N" "N \<le> int (length vel2)" using len by simp_all
    fix i and s :: "vec3 list" assume i: "0 \<le> i" "i < N" and s: "length s = length vel2"
    have self: "nat i < length pos" using i len by simp
    have ns: "neighborSearch m R gridMin icw (pos ! nat i)
           (\<lambda>g. computeVelCoherent i g starts ends pos vel1) accum0 =
         Some (gridAccum m R gridMin icw keys ?ids pos vel1 (nat i))"
      using neighborSearch_coherent[OF ok len(1) self] i by simp
    show "kernUpdateVelNeighborSearchCoherent m N R gridMin icw cw starts ends pos vel1 i s =
            Some (s[nat i := gridVel m R gridMin icw keys ?ids pos vel1 (nat i)])"
      using i s len self
      by (simp add: kernUpdateVelNeighborSearchCoherent_def rd_def wr_def ns gridVel_def
          gridNewVel_ruleSum)
  next
    fix i and s :: "vec3 list" assume "N \<le> i"
    then show "kernUpdateVelNeighborSearchCoherent m N R gridMin icw cw starts ends pos vel1 i s
                 = Some s"
      by (simp add: kernUpdateVelNeighborSearchCoherent_def)
  qed
  then show ?thesis using len by (simp add: gridVels_def)
qed

section \<open>Step drivers\<close>

lemma sorts_by_keyD:
  assumes "sorts_by_key sorter" "length keys = length vals" "sorter keys vals = (ks, vs)"
  shows "length ks = length keys" "length vs = length vals" "sorted ks"
    "mset (zip ks vs) = mset (zip keys vals)"
  using assms unfolding sorts_by_key_def by (metis (mono_tags, lifting) case_prod_conv)+

lemma zip_perm_facts:
  assumes m: "mset (zip ks vs) = mset (zip keys vals)"
    and len: "length ks = length vs" "length keys = length vals"
  shows "mset ks = mset keys" "mset vs = mset vals"
    "\<forall>k < length ks. \<exists>j < length keys. ks ! k = keys ! j \<and> vs ! k = vals ! j"
proof -
  have "mset (map fst (zip ks vs)) = mset (map fst (zip keys vals))"
    using m by (simp only: mset_map)
  then show "mset ks = mset keys" using len by simp
  have "mset (map snd (zip ks vs)) = mset (map snd (zip keys vals))"
    using m by (simp only: mset_map)
  then show "mset vs = mset vals" using len by simp
  show "\<forall>k < length ks. \<exists>j < length keys. ks ! k = keys ! j \<and> vs ! k = vals ! j"
  proof (intro allI impI)
    fix k assume k: "k < length ks"
    then have "(ks ! k, vs ! k) \<in> set (zip ks vs)" using len by (simp add: set_zip) blast
    also have "set (zip ks vs) = set (zip keys vals)" using m by (metis set_mset_mset)
    finally obtain j where "j < length keys" "j < length vals" "(ks ! k, vs ! k) = (keys ! j, vals ! j)"
      unfolding set_zip by auto
    then show "\<exists>j < length keys. ks ! k = keys ! j \<and> vs ! k = vals ! j" by auto
  qed
qed

lemma buildGrid_Some:
  assumes ok: "simOK s" and sorter: "sorts_by_key sorter"
    and sl: "sortedLabels sorter s = (ks, vs)"
  shows "\<exists>starts ends.
           buildGrid sorter s =
             Some (s\<lparr>dev_particleArrayIndices := vs, dev_particleGridIndices := ks,
                     dev_gridCellStartIndices := starts, dev_gridCellEndIndices := ends\<rparr>) \<and>
           gridOK (gridSideCount s) ks vs (length (dev_pos s)) starts ends \<and>
           length ends = length starts"
proof -
  let ?N = "numObjects s" and ?R = "gridSideCount s" and ?gm = "gridMinimum s"
  let ?icw = "gridInverseCellWidth s" and ?pos = "dev_pos s" and ?C = "gridCellCount s"
  let ?n = "length ?pos"
  let ?keys0 = "map (boidGridIndex ?R ?gm ?icw) ?pos"
  let ?ids = "map int [0 ..< ?n]"
  have N: "0 \<le> ?N" "int ?n = ?N" "int (length (dev_particleArrayIndices s)) = ?N"
    "int (length (dev_particleGridIndices s)) = ?N"
    and R: "0 < ?R" and C: "?C = ?R * ?R * ?R"
    and tl: "int (length (dev_gridCellStartIndices s)) = ?C"
      "int (length (dev_gridCellEndIndices s)) = ?C"
    using ok by (simp_all add: simOK_def)
  have nN: "nat ?N = ?n" using N by simp
  have ci: "launch ?N (kernComputeIndices ?N ?R ?gm ?icw ?pos)
              (dev_particleArrayIndices s, dev_particleGridIndices s) = Some (?ids, ?keys0)"
  proof -
    have "map (\<lambda>i. boidGridIndex ?R ?gm ?icw (?pos ! i)) [0 ..< ?n] = ?keys0"
      by (intro nth_equalityI) simp_all
    then show ?thesis
      using kernComputeIndices_launch[OF N(1), of "dev_particleArrayIndices s"
          "dev_particleGridIndices s" ?pos ?R ?gm ?icw] N
      by (simp add: nN)
  qed
  have sk: "sorter ?keys0 ?ids = (ks, vs)" using sl by (simp add: sortedLabels_def)
  have l0: "length ?keys0 = length ?ids" by simp
  note S = sorts_by_keyD[OF sorter l0 sk]
  have lks: "length ks = ?n" "length vs = ?n" using S by simp_all
  have sr: "sortRange sorter ?N ?keys0 ?ids = Some (ks, vs)"
    using N sk by (simp add: sortRange_def nN)
  have lkv: "length ks = length vs" using lks by simp
  note Z = zip_perm_facts[OF S(4) lkv l0]
  have kb: "\<forall>k < length ks. 0 \<le> ks ! k \<and> ks ! k < ?C"
  proof (intro allI impI)
    fix k assume "k < length ks"
    then have "ks ! k \<in> set ks" by simp
    also have "set ks = set ?keys0" using Z(1) by (metis set_mset_mset)
    finally obtain p where "ks ! k = boidGridIndex ?R ?gm ?icw p" by auto
    then show "0 \<le> ks ! k \<and> ks ! k < ?C" using boidGridIndex_bounds[OF R] C by simp
  qed
  have Nk: "?N = int (length ks)" using lks N by simp
  let ?st = "fold (startStep ks) (threadIds ?N) (replicate (nat ?C) (- 1))"
  let ?en = "fold (endStep ks) (threadIds ?N) (replicate (nat ?C) (- 1))"
  have rt: "rangeTable ?N ?C ks (dev_gridCellStartIndices s) (dev_gridCellEndIndices s) =
              Some (?st, ?en)"
    by (rule rangeTable_Some[OF Nk kb tl])
  have C0: "0 \<le> ?C" using tl by linarith
  have kb': "\<forall>k < length ks. 0 \<le> ks ! k \<and> ks ! k < int (nat ?C)" using kb C0 by simp
  have cover: "\<forall>k < length ks. int k \<in> set (threadIds ?N)"
    using threadIds_cover(2)[OF N(1)] Nk by simp
  have rok: "rangeTableOK ks ?st ?en"
    by (rule rangeTableOK_fold[OF S(3) kb' threadIds_cover(1)[OF N(1)] cover])
  have gok: "gridOK ?R ks vs ?n ?st ?en"
    unfolding gridOK_def
    using lks Z(2) rok C C0 by (simp add: fold_startStep_length)
  have "buildGrid sorter s =
          Some (s\<lparr>dev_particleArrayIndices := vs, dev_particleGridIndices := ks,
                  dev_gridCellStartIndices := ?st, dev_gridCellEndIndices := ?en\<rparr>)"
    by (simp add: buildGrid_def ci sr rt)
  moreover have "length ?en = length ?st" by (simp add: fold_startStep_length fold_endStep_length)
  ultimately show ?thesis using gok by blast
qed

lemma kernUpdatePos_integrate:
  assumes "int (length pos) = N" "length vel = length pos"
  shows "launch N (kernUpdatePos N dt vel) pos = Some (integrate dt pos vel)"
  using kernUpdatePos_launch[of N pos vel dt] assms by (auto simp: integrate_def)

lemma bruteForce_bruteVels:
  assumes "int (length pos) = N" "length vel1 = length pos" "length vel2 = length pos"
  shows "launch N (kernUpdateVelocityBruteForce N pos vel1) vel2 = Some (bruteVels pos vel1)"
  using kernUpdateVelocityBruteForce_launch[of N vel2 pos vel1] assms by (auto simp: bruteVels_def)

lemma length_bruteVels: "length (bruteVels pos vel) = length pos"
  by (simp add: bruteVels_def)

lemma length_gridVels: "length (gridVels m R gridMin icw keys indices pos vel) = length pos"
  by (simp add: gridVels_def)

lemma length_integrate: "length (integrate dt pos vel) = length pos"
  by (simp add: integrate_def)

lemma length_permuted: "length (permuted vs xs) = length xs"
  by (simp add: permuted_def)

lemma permuted_nth: "k < length xs \<Longrightarrow> permuted vs xs ! k = xs ! nat (vs ! k)"
  by (simp add: permuted_def)

lemma stepSimulationNaive_Some:
  assumes "simOK s"
  shows "stepSimulationNaive dt s =
           Some (s\<lparr>dev_pos := integrate dt (dev_pos s) (bruteVels (dev_pos s) (dev_vel1 s)),
                   dev_vel1 := bruteVels (dev_pos s) (dev_vel1 s),
                   dev_vel2 := dev_vel1 s\<rparr>)"
proof -
  have l: "int (length (dev_pos s)) = numObjects s" "length (dev_vel1 s) = length (dev_pos s)"
    "length (dev_vel2 s) = length (dev_pos s)"
    using assms by (auto simp: simOK_def)
  show ?thesis
    by (simp add: stepSimulationNaive_def bruteForce_bruteVels[OF l]
        kernUpdatePos_integrate[OF l(1)] length_bruteVels)
qed

lemma stepSimulationScatteredGrid_Some:
  assumes ok: "simOK s" and sorter: "sorts_by_key sorter"
    and sl: "sortedLabels sorter s = (ks, vs)"
  shows "\<exists>starts ends.
           stepSimulationScatteredGrid m sorter dt s =
             Some (s\<lparr>dev_particleArrayIndices := vs, dev_particleGridIndices := ks,
                     dev_gridCellStartIndices := starts, dev_gridCellEndIndices := ends,
                     dev_pos := integrate dt (dev_pos s)
                       (gridVels m (gridSideCount s) (gridMinimum s) (gridInverseCellWidth s)
                          ks vs (dev_pos s) (dev_vel1 s)),
                     dev_vel1 := gridVels m (gridSideCount s) (gridMinimum s)
                       (gridInverseCellWidth s) ks vs (dev_pos s) (dev_vel1 s),
                     dev_vel2 := dev_vel1 s\<rparr>)"
proof -
  obtain starts ends where
    bg: "buildGrid sorter s =
           Some (s\<lparr>dev_particleArrayIndices := vs, dev_particleGridIndices := ks,
                   dev_gridCellStartIndices := starts, dev_gridCellEndIndices := ends\<rparr>)"
    and gok: "gridOK (gridSideCount s) ks vs (length (dev_pos s)) starts ends"
    using buildGrid_Some[OF ok sorter sl] by blast
  have l: "int (length (dev_pos s)) = numObjects s" "length (dev_vel1 s) = length (dev_pos s)"
    "length (dev_vel2 s) = length (dev_pos s)"
    using ok by (auto simp: simOK_def)
  have v: "launch (numObjects s)
             (kernUpdateVelNeighborSearchScattered m (numObjects s) (gridSideCount s)
                (gridMinimum s) (gridInverseCellWidth s) (gridCellWidth s) starts ends vs
                (dev_pos s) (dev_vel1 s)) (dev_vel2 s) =
           Some (gridVels m (gridSideCount s) (gridMinimum s) (gridInverseCellWidth s)
                   ks vs (dev_pos s) (dev_vel1 s))"
    by (rule kernUpdateVelNeighborSearchScattered_launch[OF gok l(2,3) l(1)[symmetric]])
  show ?thesis
    by (rule exI[of _ starts], rule exI[of _ ends])
       (simp add: stepSimulationScatteredGrid_def bg v kernUpdatePos_integrate[OF l(1)]
          length_gridVels)
qed

text \<open>A permutation of the slots.\<close>

lemma integrate_permuted:
  assumes vs: "mset vs = mset (map int [0 ..< length pos])" and len: "length vel = length pos"
  shows "integrate dt (permuted vs pos) (permuted vs vel) = permuted vs (integrate dt pos vel)"
proof (rule nth_equalityI)
  show "length (integrate dt (permuted vs pos) (permuted vs vel)) =
        length (permuted vs (integrate dt pos vel))"
    by (simp add: length_integrate length_permuted)
  fix k assume "k < length (integrate dt (permuted vs pos) (permuted vs vel))"
  then have k: "k < length pos" by (simp add: length_integrate length_permuted)
  have pk: "nat (vs ! k) < length pos" using perm_indices(2)[OF vs] k by simp
  show "integrate dt (permuted vs pos) (permuted vs vel) ! k = permuted vs (integrate dt pos vel) ! k"
    using k pk len by (simp add: integrate_def permuted_def)
qed

lemma kernReorderData_permuted:
  assumes vs: "mset vs = mset (map int [0 ..< length pos])"
    and len: "int (length pos) = N" "length vel = length pos" "length pos_dst = length pos"
      "length vel_dst = length pos"
  shows "launch N (kernReorderData N pos vel vs) (pos_dst, vel_dst) =
           Some (permuted vs pos, permuted vs vel)"
proof -
  note P = perm_indices[OF vs]
  have N: "nat N = length pos" using len by simp
  have idx: "\<forall>k < nat N. 0 \<le> vs ! k \<and> vs ! k < int (length pos) \<and> vs ! k < int (length vel)"
    using P(2) len N by auto
  show ?thesis
    using kernReorderData_launch[of N pos_dst vel_dst vs pos vel, OF _ _ _ _ idx] len P(1)
    by (simp add: N permuted_def)
qed

lemma memcpyN_all:
  assumes "int (length src) = N" "length dst = length src"
  shows "memcpyN N dst src = Some src"
  using assms by (auto simp: memcpyN_def)

lemma map_concat_map: "map f (concat (map g xs)) = concat (map (\<lambda>x. map f (g x)) xs)"
  by (induction xs) simp_all

lemma cellList_map:
  "cellList R x y z (\<lambda>g. map f (E g)) i j = (\<lambda>k. map f (cellList R x y z E i j k))"
  by (simp add: cellList_def fun_eq_iff)

lemma scanList_map:
  "scanList m R x y z xf yf zf (\<lambda>g. map f (E g)) = map f (scanList m R x y z xf yf zf E)"
  unfolding scanList_def by (simp add: map_concat_map cellList_map comp_def)

lemma scanAgents_map:
  "scanAgents m R gridMin icw (\<lambda>g. map f (E g)) p = map f (scanAgents m R gridMin icw E p)"
  unfolding scanAgents_def Let_def by (rule scanList_map)

lemma set_cellList: "set (cellList R x y z E i j k) \<subseteq> (\<Union>g. set (E g))"
  by (auto simp: cellList_def)

lemma set_scanList_subset: "set (scanList m R x y z xf yf zf E) \<subseteq> (\<Union>g. set (E g))"
  unfolding scanList_def using set_cellList[of R x y z E] by (auto split: if_splits) blast+

lemma set_scanAgents: "set (scanAgents m R gridMin icw E p) \<subseteq> (\<Union>g. set (E g))"
  unfolding scanAgents_def Let_def by (rule set_scanList_subset)

lemma gridAccum_permuted:
  assumes vs: "mset vs = mset (map int [0 ..< length pos])"
    and len: "length vel = length pos" "length ks = length pos" and k: "k < length pos"
  shows "gridAccum m R gridMin icw ks (map int [0 ..< length pos])
           (permuted vs pos) (permuted vs vel) k =
         gridAccum m R gridMin icw ks vs pos vel (nat (vs ! k))"
proof -
  let ?n = "length pos"
  let ?pi = "\<lambda>k. nat (vs ! k)"
  let ?E' = "\<lambda>g. filter (\<lambda>j. j \<noteq> k) (cellAgents ks (map int [0 ..< ?n]) g)"
  let ?E = "\<lambda>g. filter (\<lambda>j. j \<noteq> ?pi k) (cellAgents ks vs g)"
  note P = perm_indices[OF vs]
  have pk: "permuted vs pos ! k = pos ! ?pi k" using k by (simp add: permuted_def)
  have ca: "cellAgents ks (map int [0 ..< ?n]) g = filter (\<lambda>j. ks ! j = g) [0 ..< ?n]" for g
    unfolding cellAgents_def len by (rule map_idI) simp
  have E: "?E g = map ?pi (?E' g)" for g
  proof -
    have "filter (\<lambda>j. j \<noteq> k) (filter (\<lambda>j. ks ! j = g) [0 ..< ?n]) =
          filter ((\<lambda>a. a \<noteq> ?pi k) \<circ> ?pi) (filter (\<lambda>j. ks ! j = g) [0 ..< ?n])"
    proof (rule filter_cong[OF refl])
      fix j assume "j \<in> set (filter (\<lambda>j. ks ! j = g) [0 ..< ?n])"
      then have "j < ?n" by simp
      then show "(j \<noteq> k) = ((\<lambda>a. a \<noteq> ?pi k) \<circ> ?pi) j"
        using P(4) k by (auto simp: inj_on_def)
    qed
    then have 1: "map ?pi (?E' g) =
        map ?pi (filter ((\<lambda>a. a \<noteq> ?pi k) \<circ> ?pi) (filter (\<lambda>j. ks ! j = g) [0 ..< ?n]))"
      by (simp only: ca)
    have 2: "?E g = filter (\<lambda>a. a \<noteq> ?pi k) (map ?pi (filter (\<lambda>j. ks ! j = g) [0 ..< ?n]))"
      unfolding cellAgents_def len ..
    show ?thesis unfolding 1 2 by (rule filter_map)
  qed
  have sub: "j < ?n" if "j \<in> set (scanAgents m R gridMin icw ?E' p)" for j p
  proof -
    have "j \<in> (\<Union>g. set (?E' g))"
      by (rule subsetD[OF set_scanAgents that])
    then obtain g where "j \<in> set (?E' g)" by blast
    then show ?thesis unfolding ca by simp
  qed
  have step: "neighborStep (permuted vs pos) (permuted vs vel) k j a =
                neighborStep pos vel (?pi k) (?pi j) a" if "j < ?n" for j a
  proof -
    have e: "permuted vs pos ! k = pos ! ?pi k" "permuted vs pos ! j = pos ! ?pi j"
      "permuted vs vel ! j = vel ! ?pi j"
      using that k len by (simp_all add: permuted_def)
    show ?thesis unfolding neighborStep_def e ..
  qed
  have "fold (neighborStep pos vel (?pi k))
          (scanAgents m R gridMin icw ?E (pos ! ?pi k)) accum0 =
        fold (neighborStep pos vel (?pi k))
          (map ?pi (scanAgents m R gridMin icw ?E' (pos ! ?pi k))) accum0"
    by (simp only: E scanAgents_map)
  also have "\<dots> = fold (neighborStep (permuted vs pos) (permuted vs vel) k)
          (scanAgents m R gridMin icw ?E' (pos ! ?pi k)) accum0"
    unfolding fold_map
  proof (rule fold_cong[OF refl refl])
    fix j assume "j \<in> set (scanAgents m R gridMin icw ?E' (pos ! ?pi k))"
    then have "j < ?n" by (rule sub)
    then show "(neighborStep pos vel (?pi k) \<circ> ?pi) j =
               neighborStep (permuted vs pos) (permuted vs vel) k j"
      by (simp add: fun_eq_iff step)
  qed
  finally show ?thesis unfolding gridAccum_def pk by simp
qed

lemma gridVels_permuted:
  assumes vs: "mset vs = mset (map int [0 ..< length pos])"
    and len: "length vel = length pos" "length ks = length pos"
  shows "gridVels m R gridMin icw ks (map int [0 ..< length pos])
           (permuted vs pos) (permuted vs vel) =
         permuted vs (gridVels m R gridMin icw ks vs pos vel)"
proof (rule nth_equalityI)
  show "length (gridVels m R gridMin icw ks (map int [0 ..< length pos])
           (permuted vs pos) (permuted vs vel)) =
        length (permuted vs (gridVels m R gridMin icw ks vs pos vel))"
    by (simp add: length_gridVels length_permuted)
  fix k assume "k < length (gridVels m R gridMin icw ks (map int [0 ..< length pos])
           (permuted vs pos) (permuted vs vel))"
  then have k: "k < length pos" by (simp add: length_gridVels length_permuted)
  have pk: "nat (vs ! k) < length pos" using perm_indices(2)[OF vs] k by simp
  show "gridVels m R gridMin icw ks (map int [0 ..< length pos])
           (permuted vs pos) (permuted vs vel) ! k =
        permuted vs (gridVels m R gridMin icw ks vs pos vel) ! k"
    using k pk len gridAccum_permuted[OF vs len k]
    by (simp add: gridVels_def gridVel_def permuted_def)
qed

lemma gridOK_permuted:
  assumes "gridOK R ks vs n starts ends"
  shows "gridOK R ks (map int [0 ..< n]) n starts ends"
  using assms by (simp add: gridOK_def)

lemma stepSimulationCoherentGrid_Some:
  assumes ok: "simOK s" and sorter: "sorts_by_key sorter"
    and sl: "sortedLabels sorter s = (ks, vs)"
  shows "\<exists>starts ends.
           stepSimulationCoherentGrid m sorter dt s =
             Some (s\<lparr>dev_particleArrayIndices := vs, dev_particleGridIndices := ks,
                     dev_gridCellStartIndices := starts, dev_gridCellEndIndices := ends,
                     dev_pos := permuted vs (integrate dt (dev_pos s)
                       (gridVels m (gridSideCount s) (gridMinimum s) (gridInverseCellWidth s)
                          ks vs (dev_pos s) (dev_vel1 s))),
                     dev_vel1 := permuted vs
                       (gridVels m (gridSideCount s) (gridMinimum s) (gridInverseCellWidth s)
                          ks vs (dev_pos s) (dev_vel1 s)),
                     dev_vel2 := permuted vs
                       (gridVels m (gridSideCount s) (gridMinimum s) (gridInverseCellWidth s)
                          ks vs (dev_pos s) (dev_vel1 s)),
                     dev_pos_temp := permuted vs (integrate dt (dev_pos s)
                       (gridVels m (gridSideCount s) (gridMinimum s) (gridInverseCellWidth s)
                          ks vs (dev_pos s) (dev_vel1 s))),
                     dev_vel1_temp := permuted vs (dev_vel1 s)\<rparr>) \<and>
           mset vs = mset (map int [0 ..< length (dev_pos s)])"
proof -
  let ?pos = "dev_pos s" and ?vel = "dev_vel1 s" and ?N = "numObjects s"
  let ?R = "gridSideCount s" and ?gm = "gridMinimum s" and ?icw = "gridInverseCellWidth s"
  let ?gv = "gridVels m ?R ?gm ?icw ks vs ?pos ?vel"
  obtain starts ends where
    bg: "buildGrid sorter s =
           Some (s\<lparr>dev_particleArrayIndices := vs, dev_particleGridIndices := ks,
                   dev_gridCellStartIndices := starts, dev_gridCellEndIndices := ends\<rparr>)"
    and gok: "gridOK ?R ks vs (length ?pos) starts ends"
    using buildGrid_Some[OF ok sorter sl] by blast
  have l: "int (length ?pos) = ?N" "length ?vel = length ?pos"
    "length (dev_vel2 s) = length ?pos" "length (dev_pos_temp s) = length ?pos"
    "length (dev_vel1_temp s) = length ?pos"
    using ok by (auto simp: simOK_def)
  have vs: "mset vs = mset (map int [0 ..< length ?pos])" and lk: "length ks = length ?pos"
    using gok by (simp_all add: gridOK_def)
  let ?pt = "permuted vs ?pos" and ?vt = "permuted vs ?vel"
  have lp: "length ?pt = length ?pos" "length ?vt = length ?pos"
    using l by (simp_all add: length_permuted)
  have rd: "launch ?N (kernReorderData ?N ?pos ?vel vs) (dev_pos_temp s, dev_vel1_temp s) =
              Some (?pt, ?vt)"
    by (rule kernReorderData_permuted[OF vs l(1,2,4,5)])
  have gok': "gridOK ?R ks (map int [0 ..< length ?pt]) (length ?pt) starts ends"
    using gridOK_permuted[OF gok] lp by simp
  have lv: "length ?vt = length ?pt" "length (dev_vel2 s) = length ?pt" "?N = int (length ?pt)"
    using lp l by simp_all
  have "launch ?N
             (kernUpdateVelNeighborSearchCoherent m ?N ?R ?gm ?icw (gridCellWidth s) starts ends
                ?pt ?vt) (dev_vel2 s) =
           Some (gridVels m ?R ?gm ?icw ks (map int [0 ..< length ?pt]) ?pt ?vt)"
    by (rule kernUpdateVelNeighborSearchCoherent_launch[OF gok' lv])
  then have v: "launch ?N
             (kernUpdateVelNeighborSearchCoherent m ?N ?R ?gm ?icw (gridCellWidth s) starts ends
                ?pt ?vt) (dev_vel2 s) =
           Some (permuted vs ?gv)"
    unfolding lp by (simp only: gridVels_permuted[OF vs l(2) lk])
  let ?v2 = "permuted vs ?gv"
  have lv2: "length ?v2 = length ?pt" "int (length ?pt) = ?N"
    using lp l by (simp_all add: length_permuted length_gridVels)
  have p: "launch ?N (kernUpdatePos ?N dt ?v2) ?pt = Some (permuted vs (integrate dt ?pos ?gv))"
    using kernUpdatePos_integrate[OF lv2(2) lv2(1)] integrate_permuted[OF vs, of ?gv dt]
    by (simp add: length_gridVels)
  let ?p' = "permuted vs (integrate dt ?pos ?gv)"
  have m1: "memcpyN ?N ?pos ?p' = Some ?p'"
    by (rule memcpyN_all) (simp_all add: length_permuted length_integrate l)
  have m2: "memcpyN ?N ?vel ?v2 = Some ?v2"
    by (rule memcpyN_all) (simp_all add: length_permuted length_gridVels l)
  have "stepSimulationCoherentGrid m sorter dt s =
             Some (s\<lparr>dev_particleArrayIndices := vs, dev_particleGridIndices := ks,
                     dev_gridCellStartIndices := starts, dev_gridCellEndIndices := ends,
                     dev_pos := ?p', dev_vel1 := ?v2, dev_vel2 := ?v2,
                     dev_pos_temp := ?p', dev_vel1_temp := ?vt\<rparr>)"
    by (simp add: stepSimulationCoherentGrid_def bg rd v p m1 m2)
  then show ?thesis using vs by blast
qed

section \<open>The three strategies\<close>

lemma sort_by_key_sorts: "sorts_by_key sort_by_key"
  unfolding sorts_by_key_def sort_by_key_def Let_def
  by (auto simp: zip_map_fst_snd)

lemma sqrt_sq_nonneg: "0 \<le> a \<Longrightarrow> sqrt (a * a) = a"
  by (metis abs_of_nonneg real_sqrt_abs2)

lemma demo_distances:
  "vdistance (Vec3 1 0 0) (Vec3 (- 1) 0 0) = 2" "vdistance (Vec3 (- 1) 0 0) (Vec3 1 0 0) = 2"
  "vdistance (Vec3 1 0 0) (Vec3 (- 50) 0 0) = 51" "vdistance (Vec3 (- 50) 0 0) (Vec3 1 0 0) = 51"
  "vdistance (Vec3 (- 1) 0 0) (Vec3 (- 50) 0 0) = 49" "vdistance (Vec3 (- 50) 0 0) (Vec3 (- 1) 0 0) = 49"
  using sqrt_sq_nonneg[of 2] sqrt_sq_nonneg[of 51] sqrt_sq_nonneg[of 49]
  by (simp_all add: vdistance_def vlength_def)

lemma demo_accums:
  "bruteAccum 3 [Vec3 1 0 0, Vec3 (- 50) 0 0, Vec3 (- 1) 0 0]
     [Vec3 0 0 0, Vec3 0 0 0, Vec3 0 (1 / 2) 0] 0 =
   \<lparr>perceived_center = Vec3 (- 1) 0 0, c_vec = Vec3 2 0 0, perceived_velocity = Vec3 0 (1 / 2) 0,
    rule1_neighbor_count = 1, rule3_neighbor_count = 1\<rparr>"
  "bruteAccum 3 [Vec3 1 0 0, Vec3 (- 50) 0 0, Vec3 (- 1) 0 0]
     [Vec3 0 0 0, Vec3 0 0 0, Vec3 0 (1 / 2) 0] (Suc 0) = accum0"
  "bruteAccum 3 [Vec3 1 0 0, Vec3 (- 50) 0 0, Vec3 (- 1) 0 0]
     [Vec3 0 0 0, Vec3 0 0 0, Vec3 0 (1 / 2) 0] 2 =
   \<lparr>perceived_center = Vec3 1 0 0, c_vec = Vec3 (- 2) 0 0, perceived_velocity = Vec3 0 0 0,
    rule1_neighbor_count = 1, rule3_neighbor_count = 1\<rparr>"
  by (simp_all add: bruteAccum_def neighborStep_def rules12_def rule3_def demo_distances
      accum0_def vzero_def Let_def rule1Distance_def rule2Distance_def rule3Distance_def upt_rec)

lemma demo_bruteVels:
  "bruteVels (dev_pos demo_sim) (dev_vel1 demo_sim) =
     [Vec3 (9 / 50) (1 / 20) 0, Vec3 (1 / 2) 0 0, Vec3 (- (9 / 50)) (1 / 2) 0]"
proof -
  have l: "vlength (Vec3 (9 / 50) (1 / 20) 0) \<le> 1" "vlength (Vec3 (1 / 2) 0 0) \<le> 1"
    "vlength (Vec3 (- (9 / 50)) (1 / 2) 0) \<le> 1"
    by (simp_all add: vlength_def)
  have c: "clampSpeed (Vec3 (9 / 50) (1 / 20) 0) = Vec3 (9 / 50) (1 / 20) 0"
    "clampSpeed (Vec3 (1 / 2) 0 0) = Vec3 (1 / 2) 0 0"
    "clampSpeed (Vec3 (- (9 / 50)) (1 / 2) 0) = Vec3 (- (9 / 50)) (1 / 2) 0"
    using l by (simp_all add: clampSpeed_under maxSpeed_def)
  have p: "dev_pos demo_sim = [Vec3 1 0 0, Vec3 (- 50) 0 0, Vec3 (- 1) 0 0]"
    "dev_vel1 demo_sim = [Vec3 0 0 0, Vec3 0 0 0, Vec3 0 (1 / 2) 0]"
    by (simp_all add: demo_sim_def)
  have len: "length [Vec3 1 0 0, Vec3 (- 50) 0 0, Vec3 (- 1) 0 0] = 3" by simp
  have u: "[0 ..< 3] = [0, 1, 2]" by (simp add: upt_rec)
  show ?thesis
    unfolding bruteVels_def p len u
    by (simp add: bruteVel_def demo_accums ruleSum_def averaged_def
        accum0_def vzero_def rule1Scale_def rule2Scale_def rule3Scale_def Let_def c)
qed

lemma demo_integrate:
  "integrate 1 (dev_pos demo_sim) [Vec3 (9 / 50) (1 / 20) 0, Vec3 (1 / 2) 0 0, Vec3 (- (9 / 50)) (1 / 2) 0] =
     [Vec3 (59 / 50) (1 / 20) 0, Vec3 (- (99 / 2)) 0 0, Vec3 (- (59 / 50)) (1 / 2) 0]"
proof -
  have p: "dev_pos demo_sim = [Vec3 1 0 0, Vec3 (- 50) 0 0, Vec3 (- 1) 0 0]"
    by (simp add: demo_sim_def)
  have len: "length [Vec3 1 0 0, Vec3 (- 50) 0 0, Vec3 (- 1) 0 0] = 3" by simp
  have u: "[0 ..< 3] = [0, 1, 2]" by (simp add: upt_rec)
  show ?thesis
    unfolding integrate_def p len u
    by (simp add: wrapPos_def wrapCoord_def scene_scale_def Let_def)
qed

lemma triple_nth: "length xs = 3 \<Longrightarrow> xs = [xs ! 0, xs ! 1, xs ! 2]"
  by (cases xs; cases "tl xs"; cases "tl (tl xs)") (auto simp: numeral_2_eq_2)

lemma demo_permuted:
  "permuted [1, 2, 0] [a, b, c] = [b, c, a]"
proof -
  have u: "[0 ..< length [a, b, c]] = [0, 1, 2]" by (simp add: upt_rec)
  show ?thesis unfolding permuted_def u by simp
qed

lemma demo_ok: "simOK demo_sim"
  by (simp add: simOK_def demo_sim_def)

lemma demo_labels: "sortedLabels sort_by_key demo_sim = ([5572, 5576, 5577], [1, 2, 0])"
  by (simp add: sortedLabels_def sort_by_key_def demo_sim_def boidGridIndex_def f2i_def
      gridIndex3Dto1D_def Let_def upt_rec)

lemma demo_scans:
  "scanAgents default_modes 22 (Vec3 (- 110) (- 110) (- 110)) (13421773 / 134217728)
     (\<lambda>g. filter (\<lambda>j. j \<noteq> 0) (cellAgents [5572, 5576, 5577] [1, 2, 0] g)) (Vec3 1 0 0) = [2]"
  "scanAgents default_modes 22 (Vec3 (- 110) (- 110) (- 110)) (13421773 / 134217728)
     (\<lambda>g. filter (\<lambda>j. j \<noteq> Suc 0) (cellAgents [5572, 5576, 5577] [1, 2, 0] g)) (Vec3 (- 50) 0 0) = []"
  "scanAgents default_modes 22 (Vec3 (- 110) (- 110) (- 110)) (13421773 / 134217728)
     (\<lambda>g. filter (\<lambda>j. j \<noteq> 2) (cellAgents [5572, 5576, 5577] [1, 2, 0] g)) (Vec3 (- 1) 0 0) = [0]"
  by code_simp+

lemma demo_gridAccums:
  "gridAccum default_modes 22 (Vec3 (- 110) (- 110) (- 110)) (13421773 / 134217728)
     [5572, 5576, 5577] [1, 2, 0] [Vec3 1 0 0, Vec3 (- 50) 0 0, Vec3 (- 1) 0 0]
     [Vec3 0 0 0, Vec3 0 0 0, Vec3 0 (1 / 2) 0] i =
   bruteAccum 3 [Vec3 1 0 0, Vec3 (- 50) 0 0, Vec3 (- 1) 0 0]
     [Vec3 0 0 0, Vec3 0 0 0, Vec3 0 (1 / 2) 0] i" if "i < 3"
proof -
  let ?pos = "[Vec3 1 0 0, Vec3 (- 50) 0 0, Vec3 (- 1) 0 0]"
  have p: "?pos ! 0 = Vec3 1 0 0" "?pos ! Suc 0 = Vec3 (- 50) 0 0" "?pos ! 2 = Vec3 (- 1) 0 0"
    by simp_all
  from that consider "i = 0" | "i = Suc 0" | "i = 2" by linarith
  then show ?thesis
  proof cases
    case 1
    show ?thesis unfolding 1 gridAccum_def demo_accums p demo_scans
      by (simp add: neighborStep_def rules12_def rule3_def demo_distances
          accum0_def vzero_def Let_def rule1Distance_def rule2Distance_def rule3Distance_def)
  next
    case 2
    show ?thesis unfolding 2 gridAccum_def demo_accums p demo_scans by simp
  next
    case 3
    show ?thesis unfolding 3 gridAccum_def demo_accums p demo_scans
      by (simp add: neighborStep_def rules12_def rule3_def demo_distances
          accum0_def vzero_def Let_def rule1Distance_def rule2Distance_def rule3Distance_def)
  qed
qed

lemma demo_gridVels:
  "gridVels default_modes (gridSideCount demo_sim) (gridMinimum demo_sim)
     (gridInverseCellWidth demo_sim) [5572, 5576, 5577] [1, 2, 0]
     (dev_pos demo_sim) (dev_vel1 demo_sim) =
   [Vec3 (9 / 50) (1 / 20) 0, Vec3 (1 / 2) 0 0, Vec3 (- (9 / 50)) (1 / 2) 0]"
proof -
  let ?pos = "[Vec3 1 0 0, Vec3 (- 50) 0 0, Vec3 (- 1) 0 0]"
  let ?vel = "[Vec3 0 0 0, Vec3 0 0 0, Vec3 0 (1 / 2) 0]"
  let ?gm = "Vec3 (- 110) (- 110) (- 110)"
  have p: "dev_pos demo_sim = ?pos" "dev_vel1 demo_sim = ?vel"
    "gridSideCount demo_sim = 22" "gridMinimum demo_sim = ?gm"
    "gridInverseCellWidth demo_sim = 13421773 / 134217728"
    by (simp_all add: demo_sim_def)
  have len: "length ?pos = 3" by simp
  have gv: "gridVel default_modes 22 ?gm (13421773 / 134217728) [5572, 5576, 5577] [1, 2, 0]
              ?pos ?vel i = bruteVel 3 ?pos ?vel i" if "i < 3" for i
    unfolding gridVel_def bruteVel_def demo_gridAccums[OF that] ..
  have "gridVels default_modes 22 ?gm (13421773 / 134217728) [5572, 5576, 5577] [1, 2, 0]
          ?pos ?vel = bruteVels ?pos ?vel"
    unfolding gridVels_def bruteVels_def len
  proof (rule map_cong[OF refl])
    fix x assume "x \<in> set [0 ..< 3]"
    then have "x < 3" by simp
    then show "gridVel default_modes 22 ?gm (13421773 / 134217728) [5572, 5576, 5577]
                 [1, 2, 0] ?pos ?vel x = bruteVel 3 ?pos ?vel x"
      by (rule gv)
  qed
  then show ?thesis using demo_bruteVels unfolding p by simp
qed

text \<open>
  Claim C1, amended. From a state that satisfies \<open>simOK\<close>, and with a sort that sorts by
  key, one step of each of the three strategies returns. The scattered and the coherent
  grid compute the same position and velocity for every agent; the scattered grid stores
  them by agent, the coherent grid in the order of the sorted index array, which is a
  permutation of the agents and the same in both: slot \<open>k\<close> of the coherent arrays holds
  what the scattered grid holds for agent \<open>dev_particleArrayIndices ! k\<close>. How the grid results compare with the
  brute-force result is not part of the statement.
\<close>

theorem strategies_agree:
  assumes "simOK s" and "sorts_by_key sorter"
  shows "\<exists>sN sS sC.
           stepSimulationNaive dt s = Some sN \<and>
           stepSimulationScatteredGrid m sorter dt s = Some sS \<and>
           stepSimulationCoherentGrid m sorter dt s = Some sC \<and>
           dev_particleArrayIndices sC = dev_particleArrayIndices sS \<and>
           mset (dev_particleArrayIndices sC) = mset (map int [0 ..< length (dev_pos s)]) \<and>
           length (dev_pos sN) = length (dev_pos s) \<and> length (dev_vel1 sN) = length (dev_pos s) \<and>
           length (dev_pos sS) = length (dev_pos s) \<and> length (dev_vel1 sS) = length (dev_pos s) \<and>
           length (dev_pos sC) = length (dev_pos s) \<and> length (dev_vel1 sC) = length (dev_pos s) \<and>
           (\<forall>k < length (dev_pos s).
              dev_pos sC ! k = dev_pos sS ! nat (dev_particleArrayIndices sC ! k) \<and>
              dev_vel1 sC ! k = dev_vel1 sS ! nat (dev_particleArrayIndices sC ! k))"
proof -
  obtain ks vs where sl: "sortedLabels sorter s = (ks, vs)" by (cases "sortedLabels sorter s")
  let ?v = "bruteVels (dev_pos s) (dev_vel1 s)"
  let ?p = "integrate dt (dev_pos s) ?v"
  let ?sN = "s\<lparr>dev_pos := ?p, dev_vel1 := ?v, dev_vel2 := dev_vel1 s\<rparr>"
  let ?g = "gridVels m (gridSideCount s) (gridMinimum s) (gridInverseCellWidth s) ks vs
              (dev_pos s) (dev_vel1 s)"
  let ?q = "integrate dt (dev_pos s) ?g"
  have n: "stepSimulationNaive dt s = Some ?sN" by (rule stepSimulationNaive_Some[OF assms(1)])
  obtain st en where sc: "stepSimulationScatteredGrid m sorter dt s =
             Some (s\<lparr>dev_particleArrayIndices := vs, dev_particleGridIndices := ks,
                     dev_gridCellStartIndices := st, dev_gridCellEndIndices := en,
                     dev_pos := ?q, dev_vel1 := ?g, dev_vel2 := dev_vel1 s\<rparr>)"
    using stepSimulationScatteredGrid_Some[OF assms sl, of m dt] by blast
  obtain st' en' where co: "stepSimulationCoherentGrid m sorter dt s =
             Some (s\<lparr>dev_particleArrayIndices := vs, dev_particleGridIndices := ks,
                     dev_gridCellStartIndices := st', dev_gridCellEndIndices := en',
                     dev_pos := permuted vs ?q, dev_vel1 := permuted vs ?g,
                     dev_vel2 := permuted vs ?g, dev_pos_temp := permuted vs ?q,
                     dev_vel1_temp := permuted vs (dev_vel1 s)\<rparr>)"
    and vs: "mset vs = mset (map int [0 ..< length (dev_pos s)])"
    using stepSimulationCoherentGrid_Some[OF assms sl, of m dt] by blast
  let ?sS = "s\<lparr>dev_particleArrayIndices := vs, dev_particleGridIndices := ks,
                     dev_gridCellStartIndices := st, dev_gridCellEndIndices := en,
                     dev_pos := ?q, dev_vel1 := ?g, dev_vel2 := dev_vel1 s\<rparr>"
  let ?sC = "s\<lparr>dev_particleArrayIndices := vs, dev_particleGridIndices := ks,
                     dev_gridCellStartIndices := st', dev_gridCellEndIndices := en',
                     dev_pos := permuted vs ?q, dev_vel1 := permuted vs ?g,
                     dev_vel2 := permuted vs ?g, dev_pos_temp := permuted vs ?q,
                     dev_vel1_temp := permuted vs (dev_vel1 s)\<rparr>"
  have nth: "\<forall>k < length (dev_pos s).
              dev_pos ?sC ! k = dev_pos ?sS ! nat (dev_particleArrayIndices ?sC ! k) \<and>
              dev_vel1 ?sC ! k = dev_vel1 ?sS ! nat (dev_particleArrayIndices ?sC ! k)"
    by (simp add: permuted_nth length_integrate length_gridVels)
  have rest: "dev_particleArrayIndices ?sC = dev_particleArrayIndices ?sS"
    "mset (dev_particleArrayIndices ?sC) = mset (map int [0 ..< length (dev_pos s)])"
    "length (dev_pos ?sN) = length (dev_pos s)" "length (dev_vel1 ?sN) = length (dev_pos s)"
    "length (dev_pos ?sS) = length (dev_pos s)" "length (dev_vel1 ?sS) = length (dev_pos s)"
    "length (dev_pos ?sC) = length (dev_pos s)" "length (dev_vel1 ?sC) = length (dev_pos s)"
    using vs
    by (simp_all add: length_integrate length_bruteVels length_gridVels length_permuted)
  show ?thesis
    apply (rule exI[of _ ?sN], rule exI[of _ ?sS], rule exI[of _ ?sC])
    apply (intro conjI)
               apply (rule n)
              apply (rule sc)
             apply (rule co)
            apply (rule rest(1))
           apply (rule rest(2))
          apply (rule rest(3))
         apply (rule rest(4))
        apply (rule rest(5))
       apply (rule rest(6))
      apply (rule rest(7))
     apply (rule rest(8))
    apply (rule nth)
    done
qed

text \<open>
  On \<open>demo_sim\<close> the labels of the three agents are 5577, 5572 and 5576, so the sort puts
  them in the order 1, 2, 0. The velocity array after a coherent step is not the array
  after a brute-force step: it holds the same three velocities in the order 1, 2, 0.
\<close>

theorem strategies_agree_counterexample:
  "map_option dev_vel1 (stepSimulationNaive 1 demo_sim) =
     Some [Vec3 (9 / 50) (1 / 20) 0, Vec3 (1 / 2) 0 0, Vec3 (- (9 / 50)) (1 / 2) 0] \<and>
   map_option dev_vel1 (stepSimulationCoherentGrid default_modes sort_by_key 1 demo_sim) =
     Some [Vec3 (1 / 2) 0 0, Vec3 (- (9 / 50)) (1 / 2) 0, Vec3 (9 / 50) (1 / 20) 0]"
proof -
  have n: "map_option dev_vel1 (stepSimulationNaive 1 demo_sim) =
     Some [Vec3 (9 / 50) (1 / 20) 0, Vec3 (1 / 2) 0 0, Vec3 (- (9 / 50)) (1 / 2) 0]"
    by (simp add: stepSimulationNaive_Some[OF demo_ok] demo_bruteVels)
  let ?g = "gridVels default_modes (gridSideCount demo_sim) (gridMinimum demo_sim)
              (gridInverseCellWidth demo_sim) [5572, 5576, 5577] [1, 2, 0]
              (dev_pos demo_sim) (dev_vel1 demo_sim)"
  obtain st en where "stepSimulationCoherentGrid default_modes sort_by_key 1 demo_sim =
             Some (demo_sim\<lparr>dev_particleArrayIndices := [1, 2, 0],
                     dev_particleGridIndices := [5572, 5576, 5577],
                     dev_gridCellStartIndices := st, dev_gridCellEndIndices := en,
                     dev_pos := permuted [1, 2, 0] (integrate 1 (dev_pos demo_sim) ?g),
                     dev_vel1 := permuted [1, 2, 0] ?g,
                     dev_vel2 := permuted [1, 2, 0] ?g,
                     dev_pos_temp := permuted [1, 2, 0] (integrate 1 (dev_pos demo_sim) ?g),
                     dev_vel1_temp := permuted [1, 2, 0] (dev_vel1 demo_sim)\<rparr>)"
    using stepSimulationCoherentGrid_Some[OF demo_ok sort_by_key_sorts demo_labels,
        of default_modes 1] by blast
  then have "map_option dev_vel1 (stepSimulationCoherentGrid default_modes sort_by_key 1 demo_sim) =
     Some [Vec3 (1 / 2) 0 0, Vec3 (- (9 / 50)) (1 / 2) 0, Vec3 (9 / 50) (1 / 20) 0]"
    by (simp add: demo_gridVels demo_permuted)
  with n show ?thesis by simp
qed

text \<open>
  The same step through the theorem: the scattered grid leaves the velocities and positions
  by agent, the coherent grid leaves them read through the index array \<open>[1, 2, 0]\<close>.
\<close>

theorem strategies_agree_witness:
  "map_option dev_particleArrayIndices
       (stepSimulationScatteredGrid default_modes sort_by_key 1 demo_sim) = Some [1, 2, 0] \<and>
   map_option dev_vel1 (stepSimulationScatteredGrid default_modes sort_by_key 1 demo_sim) =
     Some [Vec3 (9 / 50) (1 / 20) 0, Vec3 (1 / 2) 0 0, Vec3 (- (9 / 50)) (1 / 2) 0] \<and>
   map_option dev_pos (stepSimulationScatteredGrid default_modes sort_by_key 1 demo_sim) =
     Some [Vec3 (59 / 50) (1 / 20) 0, Vec3 (- (99 / 2)) 0 0, Vec3 (- (59 / 50)) (1 / 2) 0] \<and>
   map_option dev_particleArrayIndices
       (stepSimulationCoherentGrid default_modes sort_by_key 1 demo_sim) = Some [1, 2, 0] \<and>
   map_option dev_vel1 (stepSimulationCoherentGrid default_modes sort_by_key 1 demo_sim) =
     Some [Vec3 (1 / 2) 0 0, Vec3 (- (9 / 50)) (1 / 2) 0, Vec3 (9 / 50) (1 / 20) 0] \<and>
   map_option dev_pos (stepSimulationCoherentGrid default_modes sort_by_key 1 demo_sim) =
     Some [Vec3 (- (99 / 2)) 0 0, Vec3 (- (59 / 50)) (1 / 2) 0, Vec3 (59 / 50) (1 / 20) 0]"
proof -
  obtain sN sS sC where
    n: "stepSimulationNaive 1 demo_sim = Some sN"
    and s: "stepSimulationScatteredGrid default_modes sort_by_key 1 demo_sim = Some sS"
    and c: "stepSimulationCoherentGrid default_modes sort_by_key 1 demo_sim = Some sC"
    and idx: "dev_particleArrayIndices sC = dev_particleArrayIndices sS"
    and len: "length (dev_pos sC) = length (dev_pos demo_sim)"
      "length (dev_vel1 sC) = length (dev_pos demo_sim)"
    and nth: "\<forall>k < length (dev_pos demo_sim).
              dev_pos sC ! k = dev_pos sS ! nat (dev_particleArrayIndices sC ! k) \<and>
              dev_vel1 sC ! k = dev_vel1 sS ! nat (dev_particleArrayIndices sC ! k)"
    using strategies_agree[OF demo_ok sort_by_key_sorts, of 1 default_modes] by blast
  obtain st en where "stepSimulationScatteredGrid default_modes sort_by_key 1 demo_sim =
             Some (demo_sim\<lparr>dev_particleArrayIndices := [1, 2, 0],
                     dev_particleGridIndices := [5572, 5576, 5577],
                     dev_gridCellStartIndices := st, dev_gridCellEndIndices := en,
                     dev_pos := integrate 1 (dev_pos demo_sim)
                       (gridVels default_modes (gridSideCount demo_sim) (gridMinimum demo_sim)
                          (gridInverseCellWidth demo_sim) [5572, 5576, 5577] [1, 2, 0]
                          (dev_pos demo_sim) (dev_vel1 demo_sim)),
                     dev_vel1 := gridVels default_modes (gridSideCount demo_sim)
                       (gridMinimum demo_sim) (gridInverseCellWidth demo_sim)
                       [5572, 5576, 5577] [1, 2, 0] (dev_pos demo_sim) (dev_vel1 demo_sim),
                     dev_vel2 := dev_vel1 demo_sim\<rparr>)"
    using stepSimulationScatteredGrid_Some[OF demo_ok sort_by_key_sorts demo_labels,
        of default_modes 1] by blast
  then have vS: "dev_vel1 sS = [Vec3 (9 / 50) (1 / 20) 0, Vec3 (1 / 2) 0 0, Vec3 (- (9 / 50)) (1 / 2) 0]"
    and pS: "dev_pos sS = [Vec3 (59 / 50) (1 / 20) 0, Vec3 (- (99 / 2)) 0 0, Vec3 (- (59 / 50)) (1 / 2) 0]"
    and iS: "dev_particleArrayIndices sS = [1, 2, 0]"
    using s by (auto simp: demo_gridVels demo_integrate)
  have i: "dev_particleArrayIndices sS = [1, 2, 0]" "dev_particleArrayIndices sC = [1, 2, 0]"
    using idx iS by simp_all
  have l3: "length (dev_pos demo_sim) = 3" by (simp add: demo_sim_def)
  have e: "dev_pos sC ! 0 = Vec3 (- (99 / 2)) 0 0" "dev_vel1 sC ! 0 = Vec3 (1 / 2) 0 0"
    "dev_pos sC ! 1 = Vec3 (- (59 / 50)) (1 / 2) 0" "dev_vel1 sC ! 1 = Vec3 (- (9 / 50)) (1 / 2) 0"
    "dev_pos sC ! 2 = Vec3 (59 / 50) (1 / 20) 0" "dev_vel1 sC ! 2 = Vec3 (9 / 50) (1 / 20) 0"
    using nth[rule_format, of 0] nth[rule_format, of 1] nth[rule_format, of 2]
    by (simp_all add: l3 i vS pS)
  have "dev_pos sC = [dev_pos sC ! 0, dev_pos sC ! 1, dev_pos sC ! 2]"
    "dev_vel1 sC = [dev_vel1 sC ! 0, dev_vel1 sC ! 1, dev_vel1 sC ! 2]"
    by (rule triple_nth, simp add: len l3)+
  then have "dev_pos sC = [Vec3 (- (99 / 2)) 0 0, Vec3 (- (59 / 50)) (1 / 2) 0, Vec3 (59 / 50) (1 / 20) 0]"
    "dev_vel1 sC = [Vec3 (1 / 2) 0 0, Vec3 (- (9 / 50)) (1 / 2) 0, Vec3 (9 / 50) (1 / 20) 0]"
    by (simp_all only: e)
  then show ?thesis using s c vS pS i by simp
qed

section \<open>Speed cap in the three kernels\<close>

lemma permuted_in_set:
  assumes "mset vs = mset (map int [0 ..< length xs])" "v \<in> set (permuted vs xs)"
  shows "v \<in> set xs"
proof -
  obtain k where k: "k < length xs" "v = xs ! nat (vs ! k)"
    using assms(2) by (auto simp: permuted_def)
  have "nat (vs ! k) < length xs" using perm_indices(2)[OF assms(1)] k by simp
  then show ?thesis using k by simp
qed

lemma bruteVels_le: "v \<in> set (bruteVels pos vel) \<Longrightarrow> vlength v \<le> maxSpeed"
  by (auto simp: bruteVels_def bruteVel_def clampSpeed_le)

lemma gridVels_le:
  "v \<in> set (gridVels m R gridMin icw keys indices pos vel) \<Longrightarrow> vlength v \<le> maxSpeed"
  by (auto simp: gridVels_def gridVel_def clampSpeed_le)

text \<open>
  Claim C5. Each of the three velocity kernels returns, and for every agent the velocity
  it writes is \<open>clampSpeed\<close> of the current velocity plus the rule contributions: the
  brute-force launch when the buffers hold \<open>N\<close> agents, the two grid launches on the
  buffers of a grid that has been built (\<open>gridOK\<close>). \<open>clampSpeed w\<close> is \<open>w\<close> scaled by the
  positive factor \<open>maxSpeed / |w|\<close>, of length exactly \<open>maxSpeed\<close>, when \<open>|w| > maxSpeed\<close>,
  and is \<open>w\<close> itself otherwise; so every written velocity has length at most \<open>maxSpeed\<close>.
  From a state that satisfies \<open>simOK\<close>, one step of each strategy returns with every
  velocity of length at most \<open>maxSpeed\<close>.
\<close>

theorem velocity_update_speed_cap:
  assumes "0 \<le> N" "N \<le> int (length vel2)" "N \<le> int (length pos)" "N \<le> int (length vel1)"
  shows "(\<exists>vel2'. launch N (kernUpdateVelocityBruteForce N pos vel1) vel2 = Some vel2' \<and>
            length vel2' = length vel2 \<and>
            (\<forall>i < nat N. \<exists>dv.
               computeVelocityChange N (int i) pos vel1 = Some dv \<and>
               vel2' ! i = clampSpeed (vadd (vel1 ! i) dv) \<and>
               vlength (vel2' ! i) \<le> maxSpeed)) \<and>
         (gridOK R keys indices (length pos) starts ends \<and> N = int (length pos) \<and>
          length vel1 = length pos \<and> length vel2 = length pos \<longrightarrow>
            (\<exists>vel2'. launch N (kernUpdateVelNeighborSearchScattered m N R gridMin icw cw
                                  starts ends indices pos vel1) vel2 = Some vel2' \<and>
               length vel2' = length vel2 \<and>
               (\<forall>i < nat N. \<exists>a.
                  neighborSearch m R gridMin icw (pos ! i)
                    (\<lambda>g. computeVelScattered (int i) g starts ends indices pos vel1) accum0 = Some a \<and>
                  vel2' ! i = clampSpeed (vadd (vel1 ! i) (ruleSum (pos ! i) a)) \<and>
                  vlength (vel2' ! i) \<le> maxSpeed))) \<and>
         (gridOK R keys (map int [0 ..< length pos]) (length pos) starts ends \<and>
          N = int (length pos) \<and> length vel1 = length pos \<and> length vel2 = length pos \<longrightarrow>
            (\<exists>vel2'. launch N (kernUpdateVelNeighborSearchCoherent m N R gridMin icw cw
                                  starts ends pos vel1) vel2 = Some vel2' \<and>
               length vel2' = length vel2 \<and>
               (\<forall>i < nat N. \<exists>a.
                  neighborSearch m R gridMin icw (pos ! i)
                    (\<lambda>g. computeVelCoherent (int i) g starts ends pos vel1) accum0 = Some a \<and>
                  vel2' ! i = clampSpeed (vadd (vel1 ! i) (ruleSum (pos ! i) a)) \<and>
                  vlength (vel2' ! i) \<le> maxSpeed))) \<and>
         (simOK s \<and> sorts_by_key sorter \<longrightarrow>
            (\<exists>sN sS sC.
               stepSimulationNaive dt s = Some sN \<and>
               stepSimulationScatteredGrid m sorter dt s = Some sS \<and>
               stepSimulationCoherentGrid m sorter dt s = Some sC \<and>
               length (dev_vel1 sN) = length (dev_pos s) \<and>
               length (dev_vel1 sS) = length (dev_pos s) \<and>
               length (dev_vel1 sC) = length (dev_pos s) \<and>
               (\<forall>v \<in> set (dev_vel1 sN) \<union> set (dev_vel1 sS) \<union> set (dev_vel1 sC).
                  vlength v \<le> maxSpeed))) \<and>
         (\<forall>w. (vlength w > maxSpeed \<longrightarrow>
                 clampSpeed w = vmuls w (maxSpeed / vlength w) \<and> 0 < maxSpeed / vlength w \<and>
                 vlength (clampSpeed w) = maxSpeed) \<and>
              (vlength w \<le> maxSpeed \<longrightarrow> clampSpeed w = w))"
proof (intro conjI)
  let ?v = "map (bruteVel (nat N) pos vel1) [0 ..< nat N] @ drop (nat N) vel2"
  have 1: "launch N (kernUpdateVelocityBruteForce N pos vel1) vel2 = Some ?v"
    by (rule kernUpdateVelocityBruteForce_launch[OF assms])
  have 2: "\<exists>dv. computeVelocityChange N (int i) pos vel1 = Some dv \<and>
               ?v ! i = clampSpeed (vadd (vel1 ! i) dv) \<and> vlength (?v ! i) \<le> maxSpeed"
    if "i < nat N" for i
    using that computeVelocityChange_Some[OF assms(1,3,4) that] clampSpeed_le
    by (simp add: nth_append bruteVel_def)
  have 3: "length ?v = length vel2" using assms by simp
  show "\<exists>vel2'. launch N (kernUpdateVelocityBruteForce N pos vel1) vel2 = Some vel2' \<and>
            length vel2' = length vel2 \<and>
            (\<forall>i < nat N. \<exists>dv.
               computeVelocityChange N (int i) pos vel1 = Some dv \<and>
               vel2' ! i = clampSpeed (vadd (vel1 ! i) dv) \<and>
               vlength (vel2' ! i) \<le> maxSpeed)"
    using 1 2 3 by blast
next
  show "gridOK R keys indices (length pos) starts ends \<and> N = int (length pos) \<and>
          length vel1 = length pos \<and> length vel2 = length pos \<longrightarrow>
            (\<exists>vel2'. launch N (kernUpdateVelNeighborSearchScattered m N R gridMin icw cw
                                  starts ends indices pos vel1) vel2 = Some vel2' \<and>
               length vel2' = length vel2 \<and>
               (\<forall>i < nat N. \<exists>a.
                  neighborSearch m R gridMin icw (pos ! i)
                    (\<lambda>g. computeVelScattered (int i) g starts ends indices pos vel1) accum0 = Some a \<and>
                  vel2' ! i = clampSpeed (vadd (vel1 ! i) (ruleSum (pos ! i) a)) \<and>
                  vlength (vel2' ! i) \<le> maxSpeed))"
  proof (intro impI, elim conjE)
    assume ok: "gridOK R keys indices (length pos) starts ends"
      and len: "N = int (length pos)" "length vel1 = length pos" "length vel2 = length pos"
    let ?g = "gridVels m R gridMin icw keys indices pos vel1"
    have l: "launch N (kernUpdateVelNeighborSearchScattered m N R gridMin icw cw
                         starts ends indices pos vel1) vel2 = Some ?g"
      by (rule kernUpdateVelNeighborSearchScattered_launch[OF ok len(2,3,1)])
    have n: "\<exists>a. neighborSearch m R gridMin icw (pos ! i)
                    (\<lambda>g. computeVelScattered (int i) g starts ends indices pos vel1) accum0 = Some a \<and>
                  ?g ! i = clampSpeed (vadd (vel1 ! i) (ruleSum (pos ! i) a)) \<and>
                  vlength (?g ! i) \<le> maxSpeed" if "i < nat N" for i
    proof -
      have i: "i < length pos" using that len by simp
      show ?thesis
        using neighborSearch_scattered[OF ok len(2) i, of m gridMin icw] i clampSpeed_le
        by (simp add: gridVels_def gridVel_def)
    qed
    have "length ?g = length vel2" using len by (simp add: length_gridVels)
    with l n show "\<exists>vel2'. launch N (kernUpdateVelNeighborSearchScattered m N R gridMin icw cw
                                  starts ends indices pos vel1) vel2 = Some vel2' \<and>
               length vel2' = length vel2 \<and>
               (\<forall>i < nat N. \<exists>a.
                  neighborSearch m R gridMin icw (pos ! i)
                    (\<lambda>g. computeVelScattered (int i) g starts ends indices pos vel1) accum0 = Some a \<and>
                  vel2' ! i = clampSpeed (vadd (vel1 ! i) (ruleSum (pos ! i) a)) \<and>
                  vlength (vel2' ! i) \<le> maxSpeed)"
      by blast
  qed
next
  show "gridOK R keys (map int [0 ..< length pos]) (length pos) starts ends \<and>
          N = int (length pos) \<and> length vel1 = length pos \<and> length vel2 = length pos \<longrightarrow>
            (\<exists>vel2'. launch N (kernUpdateVelNeighborSearchCoherent m N R gridMin icw cw
                                  starts ends pos vel1) vel2 = Some vel2' \<and>
               length vel2' = length vel2 \<and>
               (\<forall>i < nat N. \<exists>a.
                  neighborSearch m R gridMin icw (pos ! i)
                    (\<lambda>g. computeVelCoherent (int i) g starts ends pos vel1) accum0 = Some a \<and>
                  vel2' ! i = clampSpeed (vadd (vel1 ! i) (ruleSum (pos ! i) a)) \<and>
                  vlength (vel2' ! i) \<le> maxSpeed))"
  proof (intro impI, elim conjE)
    assume ok: "gridOK R keys (map int [0 ..< length pos]) (length pos) starts ends"
      and len: "N = int (length pos)" "length vel1 = length pos" "length vel2 = length pos"
    let ?g = "gridVels m R gridMin icw keys (map int [0 ..< length pos]) pos vel1"
    have l: "launch N (kernUpdateVelNeighborSearchCoherent m N R gridMin icw cw
                         starts ends pos vel1) vel2 = Some ?g"
      by (rule kernUpdateVelNeighborSearchCoherent_launch[OF ok len(2,3,1)])
    have n: "\<exists>a. neighborSearch m R gridMin icw (pos ! i)
                    (\<lambda>g. computeVelCoherent (int i) g starts ends pos vel1) accum0 = Some a \<and>
                  ?g ! i = clampSpeed (vadd (vel1 ! i) (ruleSum (pos ! i) a)) \<and>
                  vlength (?g ! i) \<le> maxSpeed" if "i < nat N" for i
    proof -
      have i: "i < length pos" using that len by simp
      show ?thesis
        using neighborSearch_coherent[OF ok len(2) i, of m gridMin icw] i clampSpeed_le
        by (simp add: gridVels_def gridVel_def)
    qed
    have "length ?g = length vel2" using len by (simp add: length_gridVels)
    with l n show "\<exists>vel2'. launch N (kernUpdateVelNeighborSearchCoherent m N R gridMin icw cw
                                  starts ends pos vel1) vel2 = Some vel2' \<and>
               length vel2' = length vel2 \<and>
               (\<forall>i < nat N. \<exists>a.
                  neighborSearch m R gridMin icw (pos ! i)
                    (\<lambda>g. computeVelCoherent (int i) g starts ends pos vel1) accum0 = Some a \<and>
                  vel2' ! i = clampSpeed (vadd (vel1 ! i) (ruleSum (pos ! i) a)) \<and>
                  vlength (vel2' ! i) \<le> maxSpeed)"
      by blast
  qed
next
  show "simOK s \<and> sorts_by_key sorter \<longrightarrow>
            (\<exists>sN sS sC.
               stepSimulationNaive dt s = Some sN \<and>
               stepSimulationScatteredGrid m sorter dt s = Some sS \<and>
               stepSimulationCoherentGrid m sorter dt s = Some sC \<and>
               length (dev_vel1 sN) = length (dev_pos s) \<and>
               length (dev_vel1 sS) = length (dev_pos s) \<and>
               length (dev_vel1 sC) = length (dev_pos s) \<and>
               (\<forall>v \<in> set (dev_vel1 sN) \<union> set (dev_vel1 sS) \<union> set (dev_vel1 sC).
                  vlength v \<le> maxSpeed))"
  proof (intro impI, elim conjE)
    assume ok: "simOK s" and sorter: "sorts_by_key sorter"
    obtain ks vs where sl: "sortedLabels sorter s = (ks, vs)" by (cases "sortedLabels sorter s")
    let ?b = "bruteVels (dev_pos s) (dev_vel1 s)"
    let ?g = "gridVels m (gridSideCount s) (gridMinimum s) (gridInverseCellWidth s) ks vs
                (dev_pos s) (dev_vel1 s)"
    obtain sN where n: "stepSimulationNaive dt s = Some sN" and vN: "dev_vel1 sN = ?b"
      using stepSimulationNaive_Some[OF ok, of dt] by simp
    obtain sS where sc: "stepSimulationScatteredGrid m sorter dt s = Some sS"
      and vS: "dev_vel1 sS = ?g"
      using stepSimulationScatteredGrid_Some[OF ok sorter sl, of m dt] by auto
    obtain sC where co: "stepSimulationCoherentGrid m sorter dt s = Some sC"
      and vC: "dev_vel1 sC = permuted vs ?g"
      and vs: "mset vs = mset (map int [0 ..< length (dev_pos s)])"
      using stepSimulationCoherentGrid_Some[OF ok sorter sl, of m dt] by auto
    have vs': "mset vs = mset (map int [0 ..< length ?g])" using vs by (simp add: length_gridVels)
    have le: "vlength v \<le> maxSpeed"
      if "v \<in> set (dev_vel1 sN) \<union> set (dev_vel1 sS) \<union> set (dev_vel1 sC)" for v
      using that bruteVels_le[of v] gridVels_le[of v] permuted_in_set[OF vs', of v]
      unfolding vN vS vC by blast
    have "length (dev_vel1 sN) = length (dev_pos s)" "length (dev_vel1 sS) = length (dev_pos s)"
      "length (dev_vel1 sC) = length (dev_pos s)"
      unfolding vN vS vC by (simp_all add: length_bruteVels length_gridVels length_permuted)
    with n sc co le show "\<exists>sN sS sC.
               stepSimulationNaive dt s = Some sN \<and>
               stepSimulationScatteredGrid m sorter dt s = Some sS \<and>
               stepSimulationCoherentGrid m sorter dt s = Some sC \<and>
               length (dev_vel1 sN) = length (dev_pos s) \<and>
               length (dev_vel1 sS) = length (dev_pos s) \<and>
               length (dev_vel1 sC) = length (dev_pos s) \<and>
               (\<forall>v \<in> set (dev_vel1 sN) \<union> set (dev_vel1 sS) \<union> set (dev_vel1 sC).
                  vlength v \<le> maxSpeed)"
      by blast
  qed
next
  show "\<forall>w. (vlength w > maxSpeed \<longrightarrow>
                 clampSpeed w = vmuls w (maxSpeed / vlength w) \<and> 0 < maxSpeed / vlength w \<and>
                 vlength (clampSpeed w) = maxSpeed) \<and>
              (vlength w \<le> maxSpeed \<longrightarrow> clampSpeed w = w)"
    using clampSpeed_over clampSpeed_under by (auto simp: maxSpeed_def)
qed

lemma demo_grid:
  "\<exists>starts ends.
     buildGrid sort_by_key demo_sim =
       Some (demo_sim\<lparr>dev_particleArrayIndices := [1, 2, 0],
               dev_particleGridIndices := [5572, 5576, 5577],
               dev_gridCellStartIndices := starts, dev_gridCellEndIndices := ends\<rparr>) \<and>
     gridOK 22 [5572, 5576, 5577] [1, 2, 0] 3 starts ends"
proof -
  have d: "gridSideCount demo_sim = 22" "length (dev_pos demo_sim) = 3"
    by (simp_all add: demo_sim_def)
  show ?thesis
    using buildGrid_Some[OF demo_ok sort_by_key_sorts demo_labels] unfolding d by blast
qed

lemma demo_bruteVel:
  "bruteVel 3 [Vec3 1 0 0, Vec3 (- 50) 0 0, Vec3 (- 1) 0 0]
     [Vec3 0 0 0, Vec3 0 0 0, Vec3 0 (1 / 2) 0] i =
   [Vec3 (9 / 50) (1 / 20) 0, Vec3 (1 / 2) 0 0, Vec3 (- (9 / 50)) (1 / 2) 0] ! i" if "i < 3"
proof -
  let ?pos = "[Vec3 1 0 0, Vec3 (- 50) 0 0, Vec3 (- 1) 0 0]"
  let ?vel = "[Vec3 0 0 0, Vec3 0 0 0, Vec3 0 (1 / 2) 0]"
  have p: "dev_pos demo_sim = ?pos" "dev_vel1 demo_sim = ?vel" by (simp_all add: demo_sim_def)
  have len: "length ?pos = 3" by simp
  have "bruteVels ?pos ?vel ! i = bruteVel 3 ?pos ?vel i"
    unfolding bruteVels_def len using that by simp
  then show ?thesis using demo_bruteVels unfolding p by simp
qed

text \<open>
  Two agents one unit apart under brute force: the first ends with \<open>(3, 4, 0)\<close> before the
  clamp and is scaled to \<open>(3/5, 4/5, 0)\<close>; the second ends below the cap and is written as
  computed. Then the two grid kernels on the grid built for \<open>demo_sim\<close> (the coherent one
  on the reordered buffers), and one step of each strategy from \<open>demo_sim\<close>.
\<close>

theorem velocity_update_speed_cap_witness:
  "launch 2 (kernUpdateVelocityBruteForce 2 [Vec3 0 0 0, Vec3 1 0 0]
       [Vec3 (309 / 100) 4 0, Vec3 0 0 0]) [vzero, vzero] =
     Some [Vec3 (3 / 5) (4 / 5) 0, Vec3 (399 / 1000) (2 / 5) 0] \<and>
   (\<exists>starts ends.
      buildGrid sort_by_key demo_sim =
        Some (demo_sim\<lparr>dev_particleArrayIndices := [1, 2, 0],
                dev_particleGridIndices := [5572, 5576, 5577],
                dev_gridCellStartIndices := starts, dev_gridCellEndIndices := ends\<rparr>) \<and>
      launch 3 (kernUpdateVelNeighborSearchScattered default_modes 3 22
                  (Vec3 (- 110) (- 110) (- 110)) (13421773 / 134217728) 10 starts ends [1, 2, 0]
                  [Vec3 1 0 0, Vec3 (- 50) 0 0, Vec3 (- 1) 0 0]
                  [Vec3 0 0 0, Vec3 0 0 0, Vec3 0 (1 / 2) 0]) [vzero, vzero, vzero] =
        Some [Vec3 (9 / 50) (1 / 20) 0, Vec3 (1 / 2) 0 0, Vec3 (- (9 / 50)) (1 / 2) 0] \<and>
      launch 3 (kernUpdateVelNeighborSearchCoherent default_modes 3 22
                  (Vec3 (- 110) (- 110) (- 110)) (13421773 / 134217728) 10 starts ends
                  [Vec3 (- 50) 0 0, Vec3 (- 1) 0 0, Vec3 1 0 0]
                  [Vec3 0 0 0, Vec3 0 (1 / 2) 0, Vec3 0 0 0]) [vzero, vzero, vzero] =
        Some [Vec3 (1 / 2) 0 0, Vec3 (- (9 / 50)) (1 / 2) 0, Vec3 (9 / 50) (1 / 20) 0]) \<and>
   (\<exists>sN sS sC.
      stepSimulationNaive 1 demo_sim = Some sN \<and>
      stepSimulationScatteredGrid default_modes sort_by_key 1 demo_sim = Some sS \<and>
      stepSimulationCoherentGrid default_modes sort_by_key 1 demo_sim = Some sC \<and>
      length (dev_vel1 sN) = 3 \<and> length (dev_vel1 sS) = 3 \<and> length (dev_vel1 sC) = 3 \<and>
      vlength (dev_vel1 sN ! 0) \<le> maxSpeed \<and> vlength (dev_vel1 sS ! 0) \<le> maxSpeed \<and>
      vlength (dev_vel1 sC ! 0) \<le> maxSpeed)"
proof -
  let ?gm = "Vec3 (- 110) (- 110) (- 110)" and ?icw = "13421773 / 134217728 :: real"
  let ?ks = "[5572, 5576, 5577 :: int]" and ?vs = "[1, 2, 0 :: int]"
  let ?pos = "[Vec3 1 0 0, Vec3 (- 50) 0 0, Vec3 (- 1) 0 0]"
  let ?vel = "[Vec3 0 0 0, Vec3 0 0 0, Vec3 0 (1 / 2) 0]"
  let ?pt = "[Vec3 (- 50) 0 0, Vec3 (- 1) 0 0, Vec3 1 0 0]"
  let ?vt = "[Vec3 0 0 0, Vec3 0 (1 / 2) 0, Vec3 0 0 0]"
  let ?z = "[vzero, vzero, vzero]"
  let ?out = "[Vec3 (9 / 50) (1 / 20) 0, Vec3 (1 / 2) 0 0, Vec3 (- (9 / 50)) (1 / 2) 0]"
  have brute: "launch 2 (kernUpdateVelocityBruteForce 2 [Vec3 0 0 0, Vec3 1 0 0]
       [Vec3 (309 / 100) 4 0, Vec3 0 0 0]) [vzero, vzero] =
     Some [Vec3 (3 / 5) (4 / 5) 0, Vec3 (399 / 1000) (2 / 5) 0]"
proof -
    let ?pos = "[Vec3 0 0 0, Vec3 1 0 0]" and ?vel = "[Vec3 (309 / 100) 4 0, Vec3 0 0 0]"
    have "\<exists>vel2'. launch 2 (kernUpdateVelocityBruteForce 2 ?pos ?vel) [vzero, vzero] = Some vel2' \<and>
            length vel2' = length [vzero, vzero] \<and>
            (\<forall>i < nat 2. \<exists>dv. computeVelocityChange 2 (int i) ?pos ?vel = Some dv \<and>
                 vel2' ! i = clampSpeed (vadd (?vel ! i) dv) \<and> vlength (vel2' ! i) \<le> maxSpeed)"
      by (rule velocity_update_speed_cap[of 2 "[vzero, vzero]" ?pos ?vel, THEN conjunct1]) simp_all
    then obtain vel2' where l: "launch 2 (kernUpdateVelocityBruteForce 2 ?pos ?vel) [vzero, vzero] = Some vel2'"
      and n: "length vel2' = length [vzero, vzero]"
      and e: "\<forall>i < nat 2. \<exists>dv. computeVelocityChange 2 (int i) ?pos ?vel = Some dv \<and>
                 vel2' ! i = clampSpeed (vadd (?vel ! i) dv) \<and> vlength (vel2' ! i) \<le> maxSpeed"
      by blast
    have d01: "vdistance (Vec3 0 0 0) (Vec3 1 0 0) = 1" "vdistance (Vec3 1 0 0) (Vec3 0 0 0) = 1"
      by (simp_all add: vdistance_def vlength_def)
    have c0: "computeVelocityChange 2 0 ?pos ?vel = Some (Vec3 (- 9 / 100) 0 0)"
      by (simp add: computeVelocityChange_def computeVelocityChange_body_def neighborRules_def rd_def
          rules12_def rule3_def d01 accum0_def vzero_def ruleSum_def averaged_def Let_def
          rule1Distance_def rule2Distance_def rule3Distance_def
          rule1Scale_def rule2Scale_def rule3Scale_def upto_rec1)
    have c1: "computeVelocityChange 2 1 ?pos ?vel = Some (Vec3 (399 / 1000) (2 / 5) 0)"
      by (simp add: computeVelocityChange_def computeVelocityChange_body_def neighborRules_def rd_def
          rules12_def rule3_def d01 accum0_def vzero_def ruleSum_def averaged_def Let_def
          rule1Distance_def rule2Distance_def rule3Distance_def
          rule1Scale_def rule2Scale_def rule3Scale_def upto_rec1)
    have l0: "vlength (Vec3 3 4 0) = 5" by (simp add: vlength_def sqrt_25)
    have l1: "vlength (Vec3 (399 / 1000) (2 / 5) 0) \<le> 1"
      by (simp add: vlength_def)
    have "vel2' ! 0 = Vec3 (3 / 5) (4 / 5) 0"
      using e[rule_format, of 0] c0 l0 by (simp add: clampSpeed_def maxSpeed_def)
    moreover have "vel2' ! 1 = Vec3 (399 / 1000) (2 / 5) 0"
      using e[rule_format, of 1] c1 l1 by (simp add: clampSpeed_def maxSpeed_def)
    moreover have "vel2' = [vel2' ! 0, vel2' ! 1]" using n by (intro pair_nth) simp
    ultimately show ?thesis using l by simp
  qed
  obtain starts ends where
    bg: "buildGrid sort_by_key demo_sim =
        Some (demo_sim\<lparr>dev_particleArrayIndices := [1, 2, 0],
                dev_particleGridIndices := [5572, 5576, 5577],
                dev_gridCellStartIndices := starts, dev_gridCellEndIndices := ends\<rparr>)"
    and ok: "gridOK 22 ?ks ?vs 3 starts ends"
    using demo_grid by blast
  have l3: "length ?pos = 3" "length ?pt = 3" by simp_all
  have N3: "(0::int) \<le> 3" "3 \<le> int (length ?z)" "3 \<le> int (length ?pos)" "3 \<le> int (length ?vel)"
    "3 \<le> int (length ?pt)" "3 \<le> int (length ?vt)"
    by simp_all
  have vsm: "mset ?vs = mset (map int [0 ..< length ?pos])"
    unfolding l3 using ok unfolding gridOK_def by (elim conjE)
  have pt: "permuted ?vs ?pos = ?pt" "permuted ?vs ?vel = ?vt" by (rule demo_permuted)+
  have hS: "gridOK 22 ?ks ?vs (length ?pos) starts ends \<and> 3 = int (length ?pos) \<and>
            length ?vel = length ?pos \<and> length ?z = length ?pos"
    unfolding l3 using ok by simp
  obtain vS where
    lS: "launch 3 (kernUpdateVelNeighborSearchScattered default_modes 3 22 ?gm ?icw 10
                     starts ends ?vs ?pos ?vel) ?z = Some vS"
    and nS: "length vS = length ?z"
    and eS: "\<forall>i < nat 3. \<exists>a.
                neighborSearch default_modes 22 ?gm ?icw (?pos ! i)
                  (\<lambda>g. computeVelScattered (int i) g starts ends ?vs ?pos ?vel) accum0 = Some a \<and>
                vS ! i = clampSpeed (vadd (?vel ! i) (ruleSum (?pos ! i) a)) \<and>
                vlength (vS ! i) \<le> maxSpeed"
    using velocity_update_speed_cap[OF N3(1,2,3,4), of 22 ?ks ?vs starts ends default_modes
        ?gm ?icw 10, THEN conjunct2, THEN conjunct1, THEN mp, OF hS]
    by blast
  have vSi: "vS ! i = ?out ! i" if "i < 3" for i
  proof -
    have i: "i < length ?pos" using that by simp
    have "i < nat 3" using that by simp
    from eS[rule_format, OF this]
    obtain a where a: "neighborSearch default_modes 22 ?gm ?icw (?pos ! i)
                  (\<lambda>g. computeVelScattered (int i) g starts ends ?vs ?pos ?vel) accum0 = Some a"
      and v: "vS ! i = clampSpeed (vadd (?vel ! i) (ruleSum (?pos ! i) a))"
      by blast
    have "a = gridAccum default_modes 22 ?gm ?icw ?ks ?vs ?pos ?vel i"
      using a neighborSearch_scattered[OF hS[THEN conjunct1] _ i, of ?vel default_modes ?gm ?icw]
      by simp
    then have "a = bruteAccum 3 ?pos ?vel i" by (simp only: demo_gridAccums[OF that])
    then have "vS ! i = bruteVel 3 ?pos ?vel i" using v by (simp only: bruteVel_def)
    then show ?thesis by (simp only: demo_bruteVel[OF that])
  qed
  have vS: "vS = ?out"
  proof -
    have "vS = [vS ! 0, vS ! 1, vS ! 2]" by (rule triple_nth) (use nS in simp)
    also have "\<dots> = [?out ! 0, ?out ! 1, ?out ! 2]"
      using vSi[of 0] vSi[of 1] vSi[of 2] by simp
    finally show ?thesis by simp
  qed
  have okC: "gridOK 22 ?ks (map int [0 ..< length ?pt]) (length ?pt) starts ends"
    unfolding l3 by (rule gridOK_permuted[OF ok])
  have hC: "gridOK 22 ?ks (map int [0 ..< length ?pt]) (length ?pt) starts ends \<and>
            3 = int (length ?pt) \<and> length ?vt = length ?pt \<and> length ?z = length ?pt"
    using okC unfolding l3 by simp
  obtain vC where
    lC: "launch 3 (kernUpdateVelNeighborSearchCoherent default_modes 3 22 ?gm ?icw 10
                     starts ends ?pt ?vt) ?z = Some vC"
    and nC: "length vC = length ?z"
    and eC: "\<forall>i < nat 3. \<exists>a.
                neighborSearch default_modes 22 ?gm ?icw (?pt ! i)
                  (\<lambda>g. computeVelCoherent (int i) g starts ends ?pt ?vt) accum0 = Some a \<and>
                vC ! i = clampSpeed (vadd (?vt ! i) (ruleSum (?pt ! i) a)) \<and>
                vlength (vC ! i) \<le> maxSpeed"
    using velocity_update_speed_cap[OF N3(1,2,5,6), of 22 ?ks _ starts ends
        default_modes ?gm ?icw 10, THEN conjunct2, THEN conjunct2, THEN conjunct1,
        THEN mp, OF hC]
    by blast
  have vCi: "vC ! i = ?out ! nat (?vs ! i)" if "i < 3" for i
  proof -
    have i: "i < length ?pt" "i < length ?pos" using that by simp_all
    have pi: "nat (?vs ! i) < 3"
      by (rule perm_indices(2)[OF vsm, unfolded l3, rule_format, OF that, THEN conjunct2])
    have "i < nat 3" using that by simp
    from eC[rule_format, OF this]
    obtain a where a: "neighborSearch default_modes 22 ?gm ?icw (?pt ! i)
                  (\<lambda>g. computeVelCoherent (int i) g starts ends ?pt ?vt) accum0 = Some a"
      and v: "vC ! i = clampSpeed (vadd (?vt ! i) (ruleSum (?pt ! i) a))"
      by blast
    have "a = gridAccum default_modes 22 ?gm ?icw ?ks (map int [0 ..< length ?pt]) ?pt ?vt i"
      using a neighborSearch_coherent[OF okC _ i(1), of ?vt default_modes ?gm ?icw] by simp
    also have "\<dots> = gridAccum default_modes 22 ?gm ?icw ?ks ?vs ?pos ?vel (nat (?vs ! i))"
      using gridAccum_permuted[OF vsm _ _ i(2), of ?vel ?ks default_modes 22 ?gm ?icw]
      unfolding pt by simp
    also have "\<dots> = bruteAccum 3 ?pos ?vel (nat (?vs ! i))" by (rule demo_gridAccums[OF pi])
    finally have a': "a = bruteAccum 3 ?pos ?vel (nat (?vs ! i))" .
    have e: "?pt ! i = ?pos ! nat (?vs ! i)" "?vt ! i = ?vel ! nat (?vs ! i)"
      using permuted_nth[OF i(2), of ?vs] permuted_nth[of i ?vel ?vs] that unfolding pt by simp_all
    have "vC ! i = bruteVel 3 ?pos ?vel (nat (?vs ! i))"
      unfolding v a' e bruteVel_def ..
    then show ?thesis by (simp only: demo_bruteVel[OF pi])
  qed
  have vC: "vC = [Vec3 (1 / 2) 0 0, Vec3 (- (9 / 50)) (1 / 2) 0, Vec3 (9 / 50) (1 / 20) 0]"
  proof -
    have "vC = [vC ! 0, vC ! 1, vC ! 2]" by (rule triple_nth) (use nC in simp)
    also have "\<dots> = [?out ! nat (?vs ! 0), ?out ! nat (?vs ! 1), ?out ! nat (?vs ! 2)]"
      using vCi[of 0] vCi[of 1] vCi[of 2] by simp
    finally show ?thesis by simp
  qed
  have hT: "simOK demo_sim \<and> sorts_by_key sort_by_key"
    using demo_ok sort_by_key_sorts by simp
  obtain sN sS sC where
    st: "stepSimulationNaive 1 demo_sim = Some sN"
      "stepSimulationScatteredGrid default_modes sort_by_key 1 demo_sim = Some sS"
      "stepSimulationCoherentGrid default_modes sort_by_key 1 demo_sim = Some sC"
    and ln: "length (dev_vel1 sN) = length (dev_pos demo_sim)"
      "length (dev_vel1 sS) = length (dev_pos demo_sim)"
      "length (dev_vel1 sC) = length (dev_pos demo_sim)"
    and le: "\<forall>v \<in> set (dev_vel1 sN) \<union> set (dev_vel1 sS) \<union> set (dev_vel1 sC).
               vlength v \<le> maxSpeed"
    using velocity_update_speed_cap[OF N3(1,2,3,4), of _ _ _ _ _ default_modes _ _ _ demo_sim
        sort_by_key 1,
        THEN conjunct2, THEN conjunct2, THEN conjunct2, THEN conjunct1, THEN mp, OF hT]
    by blast
  have d3: "length (dev_pos demo_sim) = 3" by (simp add: demo_sim_def)
  have ln3: "length (dev_vel1 sN) = 3" "length (dev_vel1 sS) = 3" "length (dev_vel1 sC) = 3"
    using ln d3 by simp_all
  have "dev_vel1 sN ! 0 \<in> set (dev_vel1 sN)" "dev_vel1 sS ! 0 \<in> set (dev_vel1 sS)"
    "dev_vel1 sC ! 0 \<in> set (dev_vel1 sC)"
    using ln3 by simp_all
  then have le0: "vlength (dev_vel1 sN ! 0) \<le> maxSpeed" "vlength (dev_vel1 sS ! 0) \<le> maxSpeed"
    "vlength (dev_vel1 sC ! 0) \<le> maxSpeed"
    using le by blast+
  have steps: "\<exists>sN sS sC.
      stepSimulationNaive 1 demo_sim = Some sN \<and>
      stepSimulationScatteredGrid default_modes sort_by_key 1 demo_sim = Some sS \<and>
      stepSimulationCoherentGrid default_modes sort_by_key 1 demo_sim = Some sC \<and>
      length (dev_vel1 sN) = 3 \<and> length (dev_vel1 sS) = 3 \<and> length (dev_vel1 sC) = 3 \<and>
      vlength (dev_vel1 sN ! 0) \<le> maxSpeed \<and> vlength (dev_vel1 sS ! 0) \<le> maxSpeed \<and>
      vlength (dev_vel1 sC ! 0) \<le> maxSpeed"
    using st ln3 le0 by blast
  have grid: "\<exists>starts ends.
      buildGrid sort_by_key demo_sim =
        Some (demo_sim\<lparr>dev_particleArrayIndices := [1, 2, 0],
                dev_particleGridIndices := [5572, 5576, 5577],
                dev_gridCellStartIndices := starts, dev_gridCellEndIndices := ends\<rparr>) \<and>
      launch 3 (kernUpdateVelNeighborSearchScattered default_modes 3 22 ?gm ?icw 10 starts ends
                  ?vs ?pos ?vel) ?z = Some ?out \<and>
      launch 3 (kernUpdateVelNeighborSearchCoherent default_modes 3 22 ?gm ?icw 10 starts ends
                  ?pt ?vt) ?z =
        Some [Vec3 (1 / 2) 0 0, Vec3 (- (9 / 50)) (1 / 2) 0, Vec3 (9 / 50) (1 / 20) 0]"
    apply (rule exI[of _ starts], rule exI[of _ ends])
    apply (intro conjI)
      apply (rule bg)
     apply (rule lS[unfolded vS])
    apply (rule lC[unfolded vC])
    done
  show ?thesis
    apply (intro conjI)
      apply (rule brute)
     apply (rule grid)
    apply (rule steps)
    done
qed

section \<open>The biased scan at the middle of a cell\<close>

lemma fold_snoc: "fold (\<lambda>g l. l @ [g]) L l0 = l0 @ L"
  by (induction L arbitrary: l0) auto

lemma neighborSearch_cells:
  "neighborSearch m R gridMin icw p (\<lambda>g l. Some (l @ [g])) [] =
     Some (scanAgents m R gridMin icw (\<lambda>g. [g]) p)"
proof -
  have "neighborSearch m R gridMin icw p (\<lambda>g l. Some (l @ [g])) [] =
     Some (fold (\<lambda>g l. l @ [g]) (scanAgents m R gridMin icw (\<lambda>g. [g]) p) [])"
    by (rule neighborSearch_fold) simp
  then show ?thesis by (simp only: fold_snoc append_Nil)
qed

lemma vlength_x: "vlength (Vec3 a 0 0) = \<bar>a\<bar>"
  by (simp add: vlength_def)

lemma vdistance_x: "vdistance (Vec3 a 0 0) (Vec3 b 0 0) = \<bar>b - a\<bar>"
  by (simp add: vdistance_def vlength_def)

lemma tie_ok: "simOK tie_sim"
  by (simp add: simOK_def tie_sim_def)

lemma tie_labels: "sortedLabels sort_by_key tie_sim = ([5586, 5587], [0, 1])"
  by (simp add: sortedLabels_def sort_by_key_def tie_sim_def boidGridIndex_def f2i_def
      gridIndex3Dto1D_def Let_def upt_rec)

lemma tie_init:
  "initGlobals default_modes vzero 2 =
     \<lparr>numObjects = 2, gridCellCount = 10648, gridSideCount = 22, gridCellWidth = 10,
      gridInverseCellWidth = 13421773 / 134217728, gridMinimum = Vec3 (- 110) (- 110) (- 110)\<rparr>"
  by (simp add: initGlobals_def default_modes_def Let_def rule1Distance_def rule2Distance_def
      rule3Distance_def scene_scale_def f2i_def vzero_def f32_grid_values)

lemma tie_cells:
  "scanAgents default_modes 22 (Vec3 (- 110) (- 110) (- 110)) (13421773 / 134217728)
     (\<lambda>g. [g]) (Vec3 (95 + 1 / 131072) 0 0) = [5080, 5564, 5102, 5586]"
  by code_simp

lemma tie_scans:
  "scanAgents default_modes 22 (Vec3 (- 110) (- 110) (- 110)) (13421773 / 134217728)
     (\<lambda>g. filter (\<lambda>j. j \<noteq> 0) (cellAgents [5586, 5587] [0, 1] g)) (Vec3 (95 + 1 / 131072) 0 0) = []"
  "scanAgents (default_modes\<lparr>SINGLE_DISTANCE_MODE := True\<rparr>) 22 (Vec3 (- 110) (- 110) (- 110))
     (13421773 / 134217728)
     (\<lambda>g. filter (\<lambda>j. j \<noteq> 0) (cellAgents [5586, 5587] [0, 1] g)) (Vec3 (95 + 1 / 131072) 0 0) = [1]"
  by code_simp+

lemma tie_accums:
  "bruteAccum 2 [Vec3 (95 + 1 / 131072) 0 0, Vec3 100 0 0] [Vec3 0 0 0, Vec3 0 0 0] 0 =
     \<lparr>perceived_center = Vec3 100 0 0, c_vec = Vec3 0 0 0, perceived_velocity = Vec3 0 0 0,
      rule1_neighbor_count = 1, rule3_neighbor_count = 1\<rparr>"
  "fold (neighborStep [Vec3 (95 + 1 / 131072) 0 0, Vec3 100 0 0] [Vec3 0 0 0, Vec3 0 0 0] 0)
     [Suc 0] accum0 =
     \<lparr>perceived_center = Vec3 100 0 0, c_vec = Vec3 0 0 0, perceived_velocity = Vec3 0 0 0,
      rule1_neighbor_count = 1, rule3_neighbor_count = 1\<rparr>"
  by (simp_all add: bruteAccum_def neighborStep_def rules12_def rule3_def vdistance_x
      accum0_def vzero_def Let_def rule1Distance_def rule2Distance_def rule3Distance_def upt_rec)

lemma tie_grid:
  "\<exists>starts ends.
     buildGrid sort_by_key tie_sim =
       Some (tie_sim\<lparr>dev_particleArrayIndices := [0, 1],
               dev_particleGridIndices := [5586, 5587],
               dev_gridCellStartIndices := starts, dev_gridCellEndIndices := ends\<rparr>) \<and>
     gridOK 22 [5586, 5587] [0, 1] 2 starts ends"
proof -
  have d: "gridSideCount tie_sim = 22" "length (dev_pos tie_sim) = 2"
    by (simp_all add: tie_sim_def)
  show ?thesis
    using buildGrid_Some[OF tie_ok sort_by_key_sorts tie_labels] unfolding d by blast
qed

lemma tie_vels:
  "bruteVel 2 [Vec3 (95 + 1 / 131072) 0 0, Vec3 100 0 0] [Vec3 0 0 0, Vec3 0 0 0] 0 =
     Vec3 (655359 / 13107200) 0 0"
  "gridVel default_modes 22 (Vec3 (- 110) (- 110) (- 110)) (13421773 / 134217728)
     [5586, 5587] [0, 1] [Vec3 (95 + 1 / 131072) 0 0, Vec3 100 0 0] [Vec3 0 0 0, Vec3 0 0 0] 0 =
     Vec3 (- (12451841 / 13107200)) 0 0"
proof -
  have c: "clampSpeed (Vec3 (655359 / 13107200) 0 0) = Vec3 (655359 / 13107200) 0 0"
    "clampSpeed (Vec3 (- (12451841 / 13107200)) 0 0) = Vec3 (- (12451841 / 13107200)) 0 0"
    by (rule clampSpeed_under, simp add: vlength_x maxSpeed_def)+
  show "bruteVel 2 [Vec3 (95 + 1 / 131072) 0 0, Vec3 100 0 0] [Vec3 0 0 0, Vec3 0 0 0] 0 =
     Vec3 (655359 / 13107200) 0 0"
    unfolding bruteVel_def tie_accums
    by (simp add: ruleSum_def averaged_def rule1Scale_def rule2Scale_def rule3Scale_def Let_def c)
  have p0: "[Vec3 (95 + 1 / 131072) 0 0, Vec3 100 0 0] ! 0 = Vec3 (95 + 1 / 131072) 0 0" by simp
  show "gridVel default_modes 22 (Vec3 (- 110) (- 110) (- 110)) (13421773 / 134217728)
     [5586, 5587] [0, 1] [Vec3 (95 + 1 / 131072) 0 0, Vec3 100 0 0] [Vec3 0 0 0, Vec3 0 0 0] 0 =
     Vec3 (- (12451841 / 13107200)) 0 0"
    unfolding gridVel_def gridAccum_def p0 tie_scans
    by (simp add: ruleSum_def averaged_def accum0_def vzero_def rule1Scale_def rule2Scale_def
        rule3Scale_def Let_def c)
qed

text \<open>
  Claim C2 fails on the code. \<open>tie_sim\<close> has the grid of \<^verbatim>\<open>initSimulation\<close>, whose cell width
  10 is twice the largest rule radius 5. Agent 0 is at \<open>x = 95 + 2 ^ -17\<close> and agent 1 at
  \<open>x = 100\<close>, in the cells 5586 and 5587, at distance \<open>5 - 2 ^ -17\<close>: inside the radii of
  rules 1 and 3. The offset \<open>205 + 2 ^ -17\<close> of agent 0 from the grid minimum rounds to
  \<open>205\<close> and its product with \<open>0.1f\<close> to \<open>20.5\<close>, so \<^verbatim>\<open>x_frac\<close> is exactly \<open>0.5\<close> and the scan
  stays in the column \<open>x = 20\<close>: it visits the cells 5080, 5564, 5102 and 5586 and not the
  cell of agent 1. On the grid that \<open>buildGrid\<close> builds, the biased scan of either kernel
  leaves the accumulators of agent 0 at zero, while the scan over all 27 cells counts
  agent 1; and after one step the velocity of agent 0 points towards agent 1 under brute
  force and away from it under the scattered grid.
\<close>

theorem biased_scan_misses_neighbor:
  "initGlobals default_modes vzero 2 =
     \<lparr>numObjects = 2, gridCellCount = 10648, gridSideCount = 22, gridCellWidth = 10,
      gridInverseCellWidth = 13421773 / 134217728, gridMinimum = Vec3 (- 110) (- 110) (- 110)\<rparr> \<and>
   gridCellWidth (initGlobals default_modes vzero 2) =
     2 * max (max rule1Distance rule2Distance) rule3Distance \<and>
   vdistance (Vec3 (95 + 1 / 131072) 0 0) (Vec3 100 0 0) < rule1Distance \<and>
   vdistance (Vec3 (95 + 1 / 131072) 0 0) (Vec3 100 0 0) < rule3Distance \<and>
   boidGridIndex 22 (Vec3 (- 110) (- 110) (- 110)) (13421773 / 134217728)
     (Vec3 (95 + 1 / 131072) 0 0) = 5586 \<and>
   boidGridIndex 22 (Vec3 (- 110) (- 110) (- 110)) (13421773 / 134217728) (Vec3 100 0 0) = 5587 \<and>
   neighborSearch default_modes 22 (Vec3 (- 110) (- 110) (- 110)) (13421773 / 134217728)
     (Vec3 (95 + 1 / 131072) 0 0) (\<lambda>g l. Some (l @ [g])) [] = Some [5080, 5564, 5102, 5586] \<and>
   (\<exists>starts ends.
      buildGrid sort_by_key tie_sim =
        Some (tie_sim\<lparr>dev_particleArrayIndices := [0, 1],
                dev_particleGridIndices := [5586, 5587],
                dev_gridCellStartIndices := starts, dev_gridCellEndIndices := ends\<rparr>) \<and>
      neighborSearch default_modes 22 (Vec3 (- 110) (- 110) (- 110)) (13421773 / 134217728)
        (Vec3 (95 + 1 / 131072) 0 0)
        (\<lambda>g. computeVelScattered 0 g starts ends [0, 1]
               [Vec3 (95 + 1 / 131072) 0 0, Vec3 100 0 0] [Vec3 0 0 0, Vec3 0 0 0]) accum0 =
        Some accum0 \<and>
      neighborSearch default_modes 22 (Vec3 (- 110) (- 110) (- 110)) (13421773 / 134217728)
        (Vec3 (95 + 1 / 131072) 0 0)
        (\<lambda>g. computeVelCoherent 0 g starts ends
               [Vec3 (95 + 1 / 131072) 0 0, Vec3 100 0 0] [Vec3 0 0 0, Vec3 0 0 0]) accum0 =
        Some accum0 \<and>
      neighborSearch (default_modes\<lparr>SINGLE_DISTANCE_MODE := True\<rparr>) 22
        (Vec3 (- 110) (- 110) (- 110)) (13421773 / 134217728) (Vec3 (95 + 1 / 131072) 0 0)
        (\<lambda>g. computeVelScattered 0 g starts ends [0, 1]
               [Vec3 (95 + 1 / 131072) 0 0, Vec3 100 0 0] [Vec3 0 0 0, Vec3 0 0 0]) accum0 =
        Some \<lparr>perceived_center = Vec3 100 0 0, c_vec = Vec3 0 0 0,
              perceived_velocity = Vec3 0 0 0,
              rule1_neighbor_count = 1, rule3_neighbor_count = 1\<rparr>) \<and>
   (\<exists>sN sS.
      stepSimulationNaive 1 tie_sim = Some sN \<and>
      stepSimulationScatteredGrid default_modes sort_by_key 1 tie_sim = Some sS \<and>
      0 < vx (dev_vel1 sN ! 0) \<and> vx (dev_vel1 sS ! 0) < - (9 / 10))"
proof -
  let ?gm = "Vec3 (- 110) (- 110) (- 110)" and ?icw = "13421773 / 134217728 :: real"
  let ?p = "Vec3 (95 + 1 / 131072) 0 0" and ?q = "Vec3 100 0 0"
  let ?pos = "[?p, ?q]" and ?vel = "[Vec3 0 0 0, Vec3 0 0 0]"
  let ?S = "default_modes\<lparr>SINGLE_DISTANCE_MODE := True\<rparr>"
  have 1: "gridCellWidth (initGlobals default_modes vzero 2) =
             2 * max (max rule1Distance rule2Distance) rule3Distance"
    by (simp add: tie_init rule1Distance_def rule2Distance_def rule3Distance_def)
  have 2: "vdistance ?p ?q < rule1Distance" "vdistance ?p ?q < rule3Distance"
    by (simp_all add: vdistance_x rule1Distance_def rule3Distance_def)
  have 3: "boidGridIndex 22 ?gm ?icw ?p = 5586" "boidGridIndex 22 ?gm ?icw ?q = 5587"
    by (simp_all add: boidGridIndex_def gridIndex3Dto1D_def f2i_def Let_def)
  have 4: "neighborSearch default_modes 22 ?gm ?icw ?p (\<lambda>g l. Some (l @ [g])) [] =
             Some [5080, 5564, 5102, 5586]"
    by (simp only: neighborSearch_cells tie_cells)
  obtain starts ends where
    bg: "buildGrid sort_by_key tie_sim =
        Some (tie_sim\<lparr>dev_particleArrayIndices := [0, 1],
                dev_particleGridIndices := [5586, 5587],
                dev_gridCellStartIndices := starts, dev_gridCellEndIndices := ends\<rparr>)"
    and ok: "gridOK 22 [5586, 5587] [0, 1] 2 starts ends"
    using tie_grid by blast
  have l2: "length ?pos = 2" by simp
  have ids: "map int [0 ..< 2] = [0, 1]" by (simp add: upt_rec)
  have p0: "?pos ! 0 = ?p" "int 0 = 0" by simp_all
  have ok': "gridOK 22 [5586, 5587] [0, 1] (length ?pos) starts ends"
    unfolding l2 by (rule ok)
  have okC: "gridOK 22 [5586, 5587] (map int [0 ..< length ?pos]) (length ?pos) starts ends"
    unfolding l2 ids by (rule ok)
  have lv: "length ?vel = length ?pos" and s0: "0 < length ?pos" by simp_all
  have 5: "neighborSearch default_modes 22 ?gm ?icw ?p
        (\<lambda>g. computeVelScattered 0 g starts ends [0, 1] ?pos ?vel) accum0 = Some accum0"
    using neighborSearch_scattered[OF ok' lv s0, of default_modes ?gm ?icw]
    unfolding p0 gridAccum_def tie_scans by simp
  have 6: "neighborSearch default_modes 22 ?gm ?icw ?p
        (\<lambda>g. computeVelCoherent 0 g starts ends ?pos ?vel) accum0 = Some accum0"
    using neighborSearch_coherent[OF okC lv s0, of default_modes ?gm ?icw]
    unfolding p0 l2 ids gridAccum_def tie_scans by simp
  have 7: "neighborSearch ?S 22 ?gm ?icw ?p
        (\<lambda>g. computeVelScattered 0 g starts ends [0, 1] ?pos ?vel) accum0 =
        Some \<lparr>perceived_center = Vec3 100 0 0, c_vec = Vec3 0 0 0,
              perceived_velocity = Vec3 0 0 0,
              rule1_neighbor_count = 1, rule3_neighbor_count = 1\<rparr>"
    using neighborSearch_scattered[OF ok' lv s0, of ?S ?gm ?icw]
    unfolding p0 gridAccum_def tie_scans One_nat_def tie_accums .
  have grid: "\<exists>starts ends.
      buildGrid sort_by_key tie_sim =
        Some (tie_sim\<lparr>dev_particleArrayIndices := [0, 1],
                dev_particleGridIndices := [5586, 5587],
                dev_gridCellStartIndices := starts, dev_gridCellEndIndices := ends\<rparr>) \<and>
      neighborSearch default_modes 22 ?gm ?icw ?p
        (\<lambda>g. computeVelScattered 0 g starts ends [0, 1] ?pos ?vel) accum0 = Some accum0 \<and>
      neighborSearch default_modes 22 ?gm ?icw ?p
        (\<lambda>g. computeVelCoherent 0 g starts ends ?pos ?vel) accum0 = Some accum0 \<and>
      neighborSearch ?S 22 ?gm ?icw ?p
        (\<lambda>g. computeVelScattered 0 g starts ends [0, 1] ?pos ?vel) accum0 =
        Some \<lparr>perceived_center = Vec3 100 0 0, c_vec = Vec3 0 0 0,
              perceived_velocity = Vec3 0 0 0,
              rule1_neighbor_count = 1, rule3_neighbor_count = 1\<rparr>"
    apply (rule exI[of _ starts], rule exI[of _ ends])
    apply (intro conjI)
       apply (rule bg)
      apply (rule 5)
     apply (rule 6)
    apply (rule 7)
    done
  have d: "dev_pos tie_sim = ?pos" "dev_vel1 tie_sim = ?vel" "gridSideCount tie_sim = 22"
    "gridMinimum tie_sim = ?gm" "gridInverseCellWidth tie_sim = ?icw"
    by (simp_all add: tie_sim_def)
  have u2: "[0 ..< 2] = [0, Suc 0]" by (simp add: upt_rec)
  obtain sN where n: "stepSimulationNaive 1 tie_sim = Some sN"
    and vN: "dev_vel1 sN = bruteVels ?pos ?vel"
    using stepSimulationNaive_Some[OF tie_ok, of 1] unfolding d by simp
  obtain sS where s: "stepSimulationScatteredGrid default_modes sort_by_key 1 tie_sim = Some sS"
    and vS: "dev_vel1 sS = gridVels default_modes 22 ?gm ?icw [5586, 5587] [0, 1] ?pos ?vel"
    using stepSimulationScatteredGrid_Some[OF tie_ok sort_by_key_sorts tie_labels,
        of default_modes 1] unfolding d by auto
  have "dev_vel1 sN ! 0 = bruteVel 2 ?pos ?vel 0"
    unfolding vN bruteVels_def l2 u2 by simp
  then have "dev_vel1 sN ! 0 = Vec3 (655359 / 13107200) 0 0" by (simp only: tie_vels)
  then have vN0: "0 < vx (dev_vel1 sN ! 0)" by simp
  have "dev_vel1 sS ! 0 = gridVel default_modes 22 ?gm ?icw [5586, 5587] [0, 1] ?pos ?vel 0"
    unfolding vS gridVels_def l2 u2 by simp
  then have "dev_vel1 sS ! 0 = Vec3 (- (12451841 / 13107200)) 0 0" by (simp only: tie_vels)
  then have vS0: "vx (dev_vel1 sS ! 0) < - (9 / 10)" by simp
  have steps: "\<exists>sN sS.
      stepSimulationNaive 1 tie_sim = Some sN \<and>
      stepSimulationScatteredGrid default_modes sort_by_key 1 tie_sim = Some sS \<and>
      0 < vx (dev_vel1 sN ! 0) \<and> vx (dev_vel1 sS ! 0) < - (9 / 10)"
    using n s vN0 vS0 by blast
  show ?thesis
    apply (intro conjI)
            apply (rule tie_init)
           apply (rule 1)
          apply (rule 2(1))
         apply (rule 2(2))
        apply (rule 3(1))
       apply (rule 3(2))
      apply (rule 4)
     apply (rule grid)
    apply (rule steps)
    done
qed

end
